theory Spec2Isabelle
  imports Main "HOL-Library.Sublist"
begin

section \<open>Strings and the regular expressions the crawler uses\<close>

text \<open>
  A Python \<open>str\<close> is a sequence of Unicode code points, and \<open>len\<close> counts code points.
  The model keeps a string as the list of its code points; \<open>ustr\<close> embeds an ASCII
  literal.
\<close>

type_synonym pystr = "nat list"

definition ustr :: "string \<Rightarrow> pystr" where
  "ustr s = map of_char s"

text \<open>The apostrophe and the double quote, which the patterns below name.\<close>

definition apos :: nat where
  "apos = 39"

definition dquote :: nat where
  "dquote = 34"

text \<open>
  The characters \<open>str.strip()\<close> removes (those for which \<open>str.isspace\<close> holds).
\<close>

definition py_isspace :: "nat \<Rightarrow> bool" where
  "py_isspace c \<longleftrightarrow>
     (9 \<le> c \<and> c \<le> 13) \<or> (28 \<le> c \<and> c \<le> 32) \<or> c = 133 \<or> c = 160 \<or> c = 5760 \<or>
     (8192 \<le> c \<and> c \<le> 8202) \<or> c = 8232 \<or> c = 8233 \<or> c = 8239 \<or> c = 8287 \<or> c = 12288"

definition py_strip :: "pystr \<Rightarrow> pystr" where
  "py_strip s = rev (dropWhile py_isspace (rev (dropWhile py_isspace s)))"

text \<open>
  The patterns of the source are sequences of literals and of greedy repetitions of one
  character class: \<open>Lit l\<close> matches the text \<open>l\<close>, \<open>Rep cls lo hi\<close> matches between
  \<open>lo\<close> and \<open>hi\<close> characters of the class \<open>cls\<close> (no upper bound when \<open>hi\<close> is
  \<open>None\<close>), the longest run first, shorter runs on backtracking, as Python's \<open>re\<close> does.
  \<open>rx_match\<close> matches a pattern at the start of a text and returns the text each item
  consumed.
\<close>

datatype rx_item = Lit pystr | Rep "nat \<Rightarrow> bool" nat "nat option"

primrec first_some :: "('a \<Rightarrow> 'b option) \<Rightarrow> 'a list \<Rightarrow> 'b option" where
  "first_some f [] = None"
| "first_some f (x # xs) = (case f x of Some y \<Rightarrow> Some y | None \<Rightarrow> first_some f xs)"

primrec rx_match :: "rx_item list \<Rightarrow> pystr \<Rightarrow> pystr list option" where
  "rx_match [] s = Some []"
| "rx_match (it # r) s =
     (case it of
        Lit l \<Rightarrow>
          if prefix l s then map_option ((#) l) (rx_match r (drop (length l) s)) else None
      | Rep cls lo hi \<Rightarrow>
          let avail = length (takeWhile cls s);
              top = (case hi of None \<Rightarrow> avail | Some h \<Rightarrow> min h avail)
          in first_some (\<lambda>k. map_option ((#) (take k s)) (rx_match r (drop k s)))
               (rev [lo..<Suc top]))"

text \<open>
  \<open>re.search\<close>: the leftmost position at which the pattern matches, with the match there.
\<close>

fun rx_search :: "rx_item list \<Rightarrow> pystr \<Rightarrow> (nat \<times> pystr list) option" where
  "rx_search p [] = map_option (Pair 0) (rx_match p [])"
| "rx_search p (c # s) =
     (case rx_match p (c # s) of
        Some chunks \<Rightarrow> Some (0, chunks)
      | None \<Rightarrow> map_option (\<lambda>(i, chunks). (Suc i, chunks)) (rx_search p s))"

text \<open>
  \<open>re.findall\<close>: the matches from left to right, none overlapping another. The scan
  walks the text; after a match of \<open>n\<close> characters it skips the \<open>n - 1\<close> characters that
  follow the first one, and after an empty match it moves on by one character.
\<close>

fun rx_findall_from :: "rx_item list \<Rightarrow> nat \<Rightarrow> pystr \<Rightarrow> pystr list list" where
  "rx_findall_from p k [] =
     (if k = 0 then (case rx_match p [] of Some chunks \<Rightarrow> [chunks] | None \<Rightarrow> []) else [])"
| "rx_findall_from p (Suc k) (c # s) = rx_findall_from p k s"
| "rx_findall_from p 0 (c # s) =
     (case rx_match p (c # s) of
        Some chunks \<Rightarrow> chunks # rx_findall_from p (length (concat chunks) - 1) s
      | None \<Rightarrow> rx_findall_from p 0 s)"

definition rx_findall :: "rx_item list \<Rightarrow> pystr \<Rightarrow> pystr list list" where
  "rx_findall p s = rx_findall_from p 0 s"

section \<open>UrlResolver: \<open>extract_real_url\<close>\<close>

text \<open>
  \<^verbatim>\<open>url_pattern = r"url \+= '([^']+)';"\<close>: the literal \<open>url += '\<close>, one or more
  characters other than an apostrophe (the group), the literal \<open>';\<close>.
\<close>

definition url_open :: pystr where
  "url_open = ustr ''url += '' @ [apos]"

definition url_close :: pystr where
  "url_close = [apos] @ ustr '';''"

definition url_pattern :: "rx_item list" where
  "url_pattern = [Lit url_open, Rep (\<lambda>c. c \<noteq> apos) 1 None, Lit url_close]"

text \<open>
  \<^verbatim>\<open>full_url_pattern = r'https://mp\.weixin\.qq\.com/s\?[^"\']*'\<close>: the canonical
  article prefix, then as many characters as there are before the next quote of either
  kind.
\<close>

definition article_prefix :: pystr where
  "article_prefix = ustr ''https://mp.weixin.qq.com/s?''"

definition full_url_pattern :: "rx_item list" where
  "full_url_pattern = [Lit article_prefix, Rep (\<lambda>c. c \<noteq> dquote \<and> c \<noteq> apos) 0 None]"

text \<open>
  \<open>re.findall\<close> with one group returns the group's text of every match: here the item
  at index 1 of the pattern.
\<close>

definition url_fragments :: "pystr \<Rightarrow> pystr list" where
  "url_fragments response_text = map (\<lambda>chunks. chunks ! 1) (rx_findall url_pattern response_text)"

definition extract_real_url :: "pystr \<Rightarrow> pystr option" where
  "extract_real_url response_text =
     (let matches = url_fragments response_text in
      if matches \<noteq> [] then Some (concat matches)
      else
        (case rx_search full_url_pattern response_text of
           Some (i, chunks) \<Rightarrow> Some (py_strip (concat chunks))
         | None \<Rightarrow> None))"

subsection \<open>Redirect pages, as the claims describe them\<close>

text \<open>
  The statement \<open>url += '<fragment>';\<close> of a redirect page, and a page that consists of
  a leading text \<open>g0\<close> and of statements, each followed by a text \<open>g\<close>.
  \<open>occurs_at l s i\<close>: the text \<open>l\<close> stands in \<open>s\<close> at position \<open>i\<close>.
\<close>

definition url_stmt :: "pystr \<Rightarrow> pystr" where
  "url_stmt f = url_open @ f @ url_close"




section \<open>ArticleStore: \<open>sqlite_storage.py\<close>\<close>

text \<open>
  Python exceptions, as far as the handlers of the source tell them apart:
  \<open>requests.RequestException\<close> and every other subclass of \<open>Exception\<close>, each with
  its message.
\<close>

datatype pyexc = RequestException pystr | OtherException pystr

text \<open>
  A reading of \<open>datetime.now()\<close> and the two formats the source takes of it:
  \<open>strftime('%Y-%m-%d')\<close> and \<open>isoformat()\<close>. Numbers are zero-padded decimals; a
  \<open>datetime\<close> has a year of at most four digits (\<open>valid_datetime\<close>).
\<close>

record datetime =
  dt_year :: nat
  dt_month :: nat
  dt_day :: nat
  dt_hour :: nat
  dt_minute :: nat
  dt_second :: nat
  dt_microsecond :: nat

definition pad2 :: "nat \<Rightarrow> pystr" where
  "pad2 n = [48 + n div 10 mod 10, 48 + n mod 10]"

definition pad4 :: "nat \<Rightarrow> pystr" where
  "pad4 n = pad2 (n div 100) @ pad2 (n mod 100)"

definition pad6 :: "nat \<Rightarrow> pystr" where
  "pad6 n = pad2 (n div 10000) @ pad4 (n mod 10000)"

definition strftime_ymd :: "datetime \<Rightarrow> pystr" where
  "strftime_ymd t = pad4 (dt_year t) @ ustr ''-'' @ pad2 (dt_month t) @ ustr ''-'' @ pad2 (dt_day t)"

definition strftime_hms :: "datetime \<Rightarrow> pystr" where
  "strftime_hms t = pad2 (dt_hour t) @ ustr '':'' @ pad2 (dt_minute t) @ ustr '':'' @ pad2 (dt_second t)"

definition isoformat :: "datetime \<Rightarrow> pystr" where
  "isoformat t = strftime_ymd t @ ustr ''T'' @ strftime_hms t @
     (if dt_microsecond t = 0 then [] else ustr ''.'' @ pad6 (dt_microsecond t))"

definition valid_datetime :: "datetime \<Rightarrow> bool" where
  "valid_datetime t \<longleftrightarrow>
     1 \<le> dt_year t \<and> dt_year t \<le> 9999 \<and> 1 \<le> dt_month t \<and> dt_month t \<le> 12 \<and>
     1 \<le> dt_day t \<and> dt_day t \<le> 31 \<and> dt_hour t < 24 \<and> dt_minute t < 60 \<and>
     dt_second t < 60 \<and> dt_microsecond t < 1000000"

text \<open>
  \<open>article_data\<close> is a dictionary with string keys. The storage reads string values
  only, so the model keeps those; \<open>dict_get\<close> is \<open>dict.get(key, default)\<close>.
\<close>

type_synonym pydict = "string \<rightharpoonup> pystr"

definition dict_get :: "pydict \<Rightarrow> string \<Rightarrow> pystr \<Rightarrow> pystr" where
  "dict_get d k dflt = (case d k of Some v \<Rightarrow> v | None \<Rightarrow> dflt)"

text \<open>
  \<open>_generate_object_key\<close>. \<open>str.encode('utf-8')\<close> raises \<open>UnicodeEncodeError\<close> on a
  lone surrogate. The digest \<open>hashlib.md5(...).hexdigest()\<close> of the encoded text is a
  library function, taken as the parameter \<open>digest\<close>; \<open>now1\<close> is the clock
  reading of the default of \<open>publish_time\<close>, \<open>now2\<close> the one of the date prefix.
\<close>

definition utf8_encodable :: "pystr \<Rightarrow> bool" where
  "utf8_encodable s = list_all (\<lambda>c. c < 55296 \<or> 57343 < c) s"

definition generate_object_key ::
  "(pystr \<Rightarrow> pystr) \<Rightarrow> datetime \<Rightarrow> datetime \<Rightarrow> pydict \<Rightarrow> pyexc + pystr" where
  "generate_object_key digest now1 now2 article_data =
     (let title = dict_get article_data ''title'' (ustr ''unknown'');
          publish_time = dict_get article_data ''publish_time'' (isoformat now1)
      in if \<not> utf8_encodable (title @ publish_time)
         then Inl (OtherException (ustr ''UnicodeEncodeError''))
         else
           let content_hash = take 8 (digest (title @ publish_time));
               date_str = (if length publish_time \<ge> 10 then take 10 publish_time
                           else strftime_ymd now2)
           in Inr (date_str @ ustr ''/'' @ content_hash))"

text \<open>
  The table \<open>articles\<close>: its rows in insertion order, \<open>object_key\<close> unique.
  \<open>INSERT OR IGNORE\<close> adds the row unless a row with the same key exists, and reports
  the number of rows written.
\<close>

record row =
  object_key :: pystr
  row_title :: pystr
  row_summary :: pystr
  row_source :: pystr
  row_publish_time :: pystr
  row_address :: pystr
  row_real_url :: pystr
  row_content :: pystr
  row_saved_at :: pystr
  row_keyword :: pystr

text \<open>
  What one call of \<open>save_article\<close> reads from outside: three clock readings and
  whether the database raises (\<open>sqlite3.Error\<close> on connect, execute or commit, after
  which \<open>get_connection\<close> rolls back and re-raises).
\<close>

record save_env =
  now_default :: datetime
  now_date :: datetime
  now_saved :: datetime
  db_error :: "pyexc option"

definition insert_or_ignore :: "row \<Rightarrow> row list \<Rightarrow> nat \<times> row list" where
  "insert_or_ignore r db =
     (if object_key r \<in> object_key ` set db then (0, db) else (1, db @ [r]))"

text \<open>
  \<open>save_article\<close>: the body of the \<open>try\<close>, then the handler
  \<open>except Exception: return False\<close>.
\<close>

definition save_article_body ::
  "(pystr \<Rightarrow> pystr) \<Rightarrow> save_env \<Rightarrow> pydict \<Rightarrow> row list \<Rightarrow> (pyexc + bool) \<times> row list" where
  "save_article_body digest e article_data db =
     (case generate_object_key digest (now_default e) (now_date e) article_data of
        Inl x \<Rightarrow> (Inl x, db)
      | Inr key \<Rightarrow>
          (case db_error e of
             Some x \<Rightarrow> (Inl x, db)
           | None \<Rightarrow>
               let (rowcount, db') = insert_or_ignore
                     \<lparr> object_key = key,
                       row_title = dict_get article_data ''title'' [],
                       row_summary = dict_get article_data ''summary'' [],
                       row_source = dict_get article_data ''source'' [],
                       row_publish_time = dict_get article_data ''publish_time'' [],
                       row_address = dict_get article_data ''address'' [],
                       row_real_url = dict_get article_data ''real_url'' [],
                       row_content = dict_get article_data ''content'' [],
                       row_saved_at = isoformat (now_saved e),
                       row_keyword = dict_get article_data ''keyword'' [] \<rparr> db
               in if rowcount = 0 then (Inr False, db') else (Inr True, db')))"

definition save_article ::
  "(pystr \<Rightarrow> pystr) \<Rightarrow> save_env \<Rightarrow> pydict \<Rightarrow> row list \<Rightarrow> bool \<times> row list" where
  "save_article digest e article_data db =
     (case save_article_body digest e article_data db of
        (Inl x, db') \<Rightarrow> (False, db')
      | (Inr b, db') \<Rightarrow> (b, db'))"


subsection \<open>Sequences of saves and example values\<close>

text \<open>
  \<open>save_sequence\<close> runs any list of \<open>save_article\<close> calls on the database. The
  values below are the inputs of the closed theorems: a midday reading on a given day, an
  environment in which the database works, two articles with the same title (one without
  a publish time, as the parser leaves it when a listing item has no timestamp script, one
  with), and a fixed text standing for the digest, which no theorem depends on.
\<close>

fun save_sequence ::
  "(pystr \<Rightarrow> pystr) \<Rightarrow> (save_env \<times> pydict) list \<Rightarrow> row list \<Rightarrow> row list" where
  "save_sequence digest [] db = db"
| "save_sequence digest ((e, a) # calls) db =
     save_sequence digest calls (snd (save_article digest e a db))"

definition on_day :: "nat \<Rightarrow> nat \<Rightarrow> nat \<Rightarrow> datetime" where
  "on_day y m d = \<lparr> dt_year = y, dt_month = m, dt_day = d, dt_hour = 12, dt_minute = 0,
     dt_second = 0, dt_microsecond = 0 \<rparr>"

definition save_on :: "datetime \<Rightarrow> save_env" where
  "save_on t = \<lparr> now_default = t, now_date = t, now_saved = t, db_error = None \<rparr>"

definition digest_stub :: "pystr \<Rightarrow> pystr" where
  "digest_stub s = ustr ''0123456789abcdef0123456789abcdef''"

definition undated_article :: pydict where
  "undated_article = [''title'' \<mapsto> ustr ''Test Article'', ''publish_time'' \<mapsto> []]"

definition dated_article :: pydict where
  "dated_article = [''title'' \<mapsto> ustr ''Test Article'',
     ''publish_time'' \<mapsto> ustr ''2024-05-01 08:30:00'']"

section \<open>SearchResultParser: \<open>_parse_search_results\<close>\<close>

text \<open>The dataclass \<open>WeChatArticle\<close> and its defaults.\<close>

record article =
  title :: pystr
  summary :: pystr
  source :: pystr
  publish_time :: pystr
  address :: pystr
  sogou_url :: pystr
  real_url :: pystr
  crawl_time :: pystr
  success :: bool
  content :: pystr
  content_fetched :: bool

definition WeChatArticle :: article where
  "WeChatArticle = \<lparr> title = [], summary = [], source = [], publish_time = [], address = [],
     sogou_url = [], real_url = [], crawl_time = [], success = False, content = [],
     content_fetched = False \<rparr>"

text \<open>
  What the parser asks of BeautifulSoup. An element is known by the strings
  \<open>get_text\<close> walks over, in document order, and by its \<open>href\<close> attribute;
  \<open>get_text(strip=True)\<close> strips every string, drops the empty ones and joins the rest,
  \<open>get_text()\<close> joins them as they are. A listing item is known by the selections the
  parser makes in it.
\<close>

record element =
  el_strings :: "pystr list"
  el_href :: "pystr option"

definition get_text_strip :: "element \<Rightarrow> pystr" where
  "get_text_strip e = concat (filter (\<lambda>s. s \<noteq> []) (map py_strip (el_strings e)))"

definition get_text :: "element \<Rightarrow> pystr" where
  "get_text e = concat (el_strings e)"

record news_item =
  sel_h3_a :: "element option"
  sel_h3 :: "element option"
  sel_p :: "element list"
  sel_source :: "element option"
  sel_time_script :: "element option"

text \<open>
  An article page, as \<open>extract_article_text\<close> sees it once the \<open>script\<close> and
  \<open>style\<close> elements are removed: the results of \<open>select_one\<close> for its six selectors,
  in their order, and the \<open>body\<close> element.
\<close>

record article_page =
  ap_selected :: "element option list"
  ap_body :: "element option"

text \<open>
  The library functions the crawler depends on, as parameters: the items
  \<open>BeautifulSoup(html, 'html.parser').select('ul.news-list li')\<close> finds in a page, the
  Unicode decimal digits (the class \<open>\d\<close> of a \<open>str\<close> pattern),
  \<open>datetime.fromtimestamp(int(digits))\<close>, which depends on the time zone and raises on
  a timestamp out of range, \<open>str.lower\<close>, the digest of the store, and the parse of an
  article page.
\<close>

record pylib =
  select_news_items :: "pystr \<Rightarrow> news_item list"
  unicode_decimal :: "nat \<Rightarrow> bool"
  fromtimestamp :: "pystr \<Rightarrow> pyexc + datetime"
  str_lower :: "pystr \<Rightarrow> pystr"
  md5_hexdigest :: "pystr \<Rightarrow> pystr"
  parse_article_page :: "pystr \<Rightarrow> pyexc + article_page"

text \<open>
  The patterns of the summary filter and of the timestamp:
  \<^verbatim>\<open>\d{4}-\d{1,2}-\d{1,2}\<close>, the four alternatives of the relative-time pattern
  (\<open>today\<close>, \<open>yesterday\<close>, \<open>\d+ hours ago\<close>, \<open>\d+ minutes ago\<close>, in Chinese), the
  platform's name, and \<^verbatim>\<open>timeConvert\('(\d+)'\)\<close>.
\<close>

definition date_pattern :: "pylib \<Rightarrow> rx_item list" where
  "date_pattern lib =
     [Rep (unicode_decimal lib) 4 (Some 4), Lit (ustr ''-''),
      Rep (unicode_decimal lib) 1 (Some 2), Lit (ustr ''-''),
      Rep (unicode_decimal lib) 1 (Some 2)]"

definition relative_time_patterns :: "pylib \<Rightarrow> rx_item list list" where
  "relative_time_patterns lib =
     [[Lit [20170, 26085]], [Lit [26152, 26085]],
      [Rep (unicode_decimal lib) 1 None, Lit [23567, 26102, 21069]],
      [Rep (unicode_decimal lib) 1 None, Lit [20998, 38047, 21069]]]"

definition platform_name :: pystr where
  "platform_name = [24494, 20449, 20844, 20247, 24179, 21488]"

definition timestamp_pattern :: "pylib \<Rightarrow> rx_item list" where
  "timestamp_pattern lib =
     [Lit (ustr ''timeConvert('' @ [apos]), Rep (unicode_decimal lib) 1 None,
      Lit ([apos] @ ustr '')'')]"

definition rx_found :: "rx_item list \<Rightarrow> pystr \<Rightarrow> bool" where
  "rx_found p s \<longleftrightarrow> rx_search p s \<noteq> None"

text \<open>
  Step 2 of the loop body: the condition a paragraph's text must meet, and the loop over
  the paragraphs, which stops at the first that meets it.
\<close>

definition summary_candidate :: "pylib \<Rightarrow> pystr \<Rightarrow> bool" where
  "summary_candidate lib t \<longleftrightarrow>
     length t > 20 \<and> \<not> rx_found (date_pattern lib) t \<and>
     \<not> list_ex (\<lambda>p. rx_found p t) (relative_time_patterns lib) \<and>
     \<not> sublist platform_name t"

fun extract_summary :: "pylib \<Rightarrow> element list \<Rightarrow> pystr" where
  "extract_summary lib [] = []"
| "extract_summary lib (p_elem # summary_elems) =
     (let t = get_text_strip p_elem in
      if summary_candidate lib t
      then (if length t > 300 then take 300 t @ ustr ''...'' else t)
      else extract_summary lib summary_elems)"

text \<open>Steps 1, 3, 4 and 5.\<close>

definition extract_title :: "news_item \<Rightarrow> pystr" where
  "extract_title item =
     (case sel_h3_a item of
        Some title_elem \<Rightarrow> get_text_strip title_elem
      | None \<Rightarrow>
          (case sel_h3 item of
             Some title_elem \<Rightarrow> get_text_strip title_elem
           | None \<Rightarrow> []))"

definition extract_sogou_url :: "news_item \<Rightarrow> pystr" where
  "extract_sogou_url item =
     (case sel_h3_a item of
        None \<Rightarrow> []
      | Some link_elem \<Rightarrow>
          (let href = (case el_href link_elem of Some h \<Rightarrow> h | None \<Rightarrow> []) in
           if href \<noteq> []
           then (if prefix (ustr ''/'') href then ustr ''https://weixin.sogou.com'' @ href
                 else href)
           else []))"

definition extract_source :: "news_item \<Rightarrow> pystr" where
  "extract_source item =
     (case sel_source item of
        None \<Rightarrow> []
      | Some source_elem \<Rightarrow>
          (let source_text = get_text_strip source_elem in
           if source_text \<noteq> [] \<and> source_text \<noteq> platform_name then source_text else []))"

definition strftime_full :: "datetime \<Rightarrow> pystr" where
  "strftime_full t = strftime_ymd t @ ustr '' '' @ strftime_hms t"

definition extract_publish_time :: "pylib \<Rightarrow> news_item \<Rightarrow> pyexc + pystr" where
  "extract_publish_time lib item =
     (case sel_time_script item of
        None \<Rightarrow> Inr []
      | Some time_script_elem \<Rightarrow>
          (case rx_search (timestamp_pattern lib) (get_text time_script_elem) of
             None \<Rightarrow> Inr []
           | Some (i, chunks) \<Rightarrow>
               (case fromtimestamp lib (chunks ! 1) of
                  Inl x \<Rightarrow> Inl x
                | Inr t \<Rightarrow> Inr (strftime_full t))))"

text \<open>
  One turn of the loop: \<open>Inr None\<close> is \<open>continue\<close> (the item is dropped),
  \<open>Inr (Some a)\<close> appends \<open>a\<close>, \<open>Inl x\<close> is an exception, which ends the parse.
\<close>

definition parse_item :: "pylib \<Rightarrow> datetime \<Rightarrow> news_item \<Rightarrow> pyexc + article option" where
  "parse_item lib now item =
     (let a = WeChatArticle \<lparr> crawl_time := strftime_full now \<rparr>;
          a = a \<lparr> title := extract_title item \<rparr>
      in if title a = [] then Inr None
         else
           let a = a \<lparr> summary := extract_summary lib (sel_p item) \<rparr>;
               a = a \<lparr> sogou_url := extract_sogou_url item \<rparr>;
               a = a \<lparr> source := extract_source item \<rparr>
           in (case extract_publish_time lib item of
                 Inl x \<Rightarrow> Inl x
               | Inr t \<Rightarrow> Inr (Some (a \<lparr> publish_time := t \<rparr>))))"

fun parse_loop :: "pylib \<Rightarrow> (nat \<Rightarrow> datetime) \<Rightarrow> nat \<Rightarrow> news_item list \<Rightarrow> pyexc + article list" where
  "parse_loop lib clock i [] = Inr []"
| "parse_loop lib clock i (item # news_items) =
     (case parse_item lib (clock i) item of
        Inl x \<Rightarrow> Inl x
      | Inr r \<Rightarrow>
          (case parse_loop lib clock (Suc i) news_items of
             Inl x \<Rightarrow> Inl x
           | Inr articles \<Rightarrow> Inr (case r of None \<Rightarrow> articles | Some a \<Rightarrow> a # articles)))"

definition parse_search_results :: "pylib \<Rightarrow> (nat \<Rightarrow> datetime) \<Rightarrow> pystr \<Rightarrow> pyexc + article list" where
  "parse_search_results lib clock html_content =
     parse_loop lib clock 0 (select_news_items lib html_content)"


subsection \<open>Example values of the parser's closed theorems\<close>

text \<open>
  A library whose page holds the given items, whose decimal digits are the ASCII ones,
  whose clock conversion always yields the same day, which lower-cases the ASCII letters
  whose digest is the fixed text, and for which an article page is a body holding the
  page's text; an element with one string; an item
  with a linked heading and paragraphs only.
\<close>

definition ascii_lib :: "news_item list \<Rightarrow> pylib" where
  "ascii_lib items = \<lparr> select_news_items = (\<lambda>html. items),
     unicode_decimal = (\<lambda>c. 48 \<le> c \<and> c \<le> 57),
     fromtimestamp = (\<lambda>digits. Inr (on_day 2024 5 1)),
     str_lower = map (\<lambda>c. if 65 \<le> c \<and> c \<le> 90 then c + 32 else c),
     md5_hexdigest = digest_stub,
     parse_article_page =
       (\<lambda>html. Inr \<lparr> ap_selected = [],
          ap_body = Some \<lparr> el_strings = [html], el_href = None \<rparr> \<rparr>) \<rparr>"

definition text_element :: "pystr \<Rightarrow> element" where
  "text_element s = \<lparr> el_strings = [s], el_href = None \<rparr>"

definition plain_item :: "pystr \<Rightarrow> pystr list \<Rightarrow> news_item" where
  "plain_item heading paras = \<lparr> sel_h3_a = Some (text_element heading),
     sel_h3 = Some (text_element heading), sel_p = map text_element paras,
     sel_source = None, sel_time_script = None \<rparr>"

section \<open>SessionManager: the crawler object, its environment, and login\<close>

text \<open>
  The fields of \<open>WeChatCrawler\<close> that the operations read or write, with the world they
  act on: the cookie file, the cookie jars of the two HTTP sessions, the database of the
  store. Three fields record what the crawler did: \<open>pauses\<close> is the list of its
  \<open>time.sleep\<close> calls, \<open>handed\<close> the records passed to \<open>save_article_to_storage\<close>,
  and \<open>ticks\<close> counts its interactions with the environment.
\<close>

record cookie =
  ck_name :: pystr
  ck_value :: pystr

datatype pause = Fixed nat | Between nat nat

record crawler =
  is_logged_in :: bool
  keyword :: pystr
  use_anti_crawler :: bool
  playwright_started :: bool
  cookie_file :: "cookie list option"
  login_session_cookies :: "cookie list"
  anti_crawler_cookies :: "cookie list"
  storage :: "row list"
  handed :: "article list"
  pauses :: "pause list"
  ticks :: nat

record http_response =
  status_code :: nat
  resp_text :: pystr

text \<open>
  The environment: what the browser, the network, the file system, the database and the
  clock answer at each interaction, as functions of the interaction's number. Every
  theorem holds for every environment. \<open>open_login_page\<close> stands for the steps of
  \<open>playwright_login\<close> from \<open>new_page\<close> to the click on the login control, any of which
  may raise; \<open>config_lines\<close> is the configuration file: \<open>None\<close> when it does not
  exist, the exception when reading fails, its lines otherwise; \<open>pool_schedule\<close> is
  the order in which a thread pool runs its workers; \<open>library\<close> holds the library
  functions.
\<close>

record world =
  start_browser :: "nat \<Rightarrow> pyexc option"
  open_login_page :: "nat \<Rightarrow> pyexc option"
  context_cookies :: "nat \<Rightarrow> pyexc + cookie list"
  login_button_visible :: "nat \<Rightarrow> pyexc + bool"
  pickle_dump :: "nat \<Rightarrow> pyexc option"
  close_page :: "nat \<Rightarrow> pyexc option"
  remove_file :: "nat \<Rightarrow> pyexc option"
  http_get :: "nat \<Rightarrow> pystr \<Rightarrow> pyexc + http_response"
  search_get :: "nat \<Rightarrow> pystr \<Rightarrow> int \<Rightarrow> pyexc + http_response"
  save_env_at :: "nat \<Rightarrow> save_env"
  clock_at :: "nat \<Rightarrow> nat \<Rightarrow> datetime"
  config_lines :: "nat \<Rightarrow> (pyexc + pystr list) option"
  pool_schedule :: "nat \<Rightarrow> nat list"
  library :: pylib

definition tick :: "crawler \<Rightarrow> crawler" where
  "tick st = st \<lparr> ticks := Suc (ticks st) \<rparr>"

definition sleep :: "pause \<Rightarrow> crawler \<Rightarrow> crawler" where
  "sleep p st = st \<lparr> pauses := pauses st @ [p] \<rparr>"

text \<open>\<open>cookies.set(name, value, ...)\<close> on a jar: the cookie of that name is replaced.\<close>

definition jar_set :: "cookie \<Rightarrow> cookie list \<Rightarrow> cookie list" where
  "jar_set c jar = filter (\<lambda>d. ck_name d \<noteq> ck_name c) jar @ [c]"

definition jar_update :: "cookie list \<Rightarrow> cookie list \<Rightarrow> cookie list" where
  "jar_update cookies jar = foldl (\<lambda>j c. jar_set c j) jar cookies"

text \<open>\<open>init_playwright\<close>: starts the browser once; the start may raise.\<close>

definition init_playwright :: "world \<Rightarrow> crawler \<Rightarrow> (pyexc + unit) \<times> crawler" where
  "init_playwright w st =
     (if playwright_started st then (Inr (), st)
      else
        (case start_browser w (ticks st) of
           Some x \<Rightarrow> (Inl x, tick st)
         | None \<Rightarrow> (Inr (), tick (st \<lparr> playwright_started := True \<rparr>))))"

text \<open>
  \<open>save_login_cookies\<close>: writes the file, fills the jar of \<open>login_session\<close> and sets
  \<open>is_logged_in\<close>; when writing raises, the handler logs and nothing else happens.
\<close>

definition save_login_cookies :: "world \<Rightarrow> cookie list \<Rightarrow> crawler \<Rightarrow> crawler" where
  "save_login_cookies w cookies st =
     (case pickle_dump w (ticks st) of
        Some x \<Rightarrow> tick st
      | None \<Rightarrow>
          tick (st \<lparr> cookie_file := Some cookies,
                      login_session_cookies := jar_update cookies (login_session_cookies st),
                      is_logged_in := True \<rparr>))"

text \<open>
  The polling loop \<open>for i in range(60)\<close> of \<open>playwright_login\<close>. A cookie is a login
  cookie when its lower-cased name contains one of the four markers. The loop ends with
  \<open>login_success\<close> true at the first round that sees a login cookie or finds the login
  control invisible; an exception of \<open>is_visible\<close> is swallowed (\<open>except: pass\<close>), one of
  \<open>page.context.cookies()\<close> leaves the loop. Each round without success sleeps a second.
\<close>

definition login_markers :: "pystr list" where
  "login_markers = [ustr ''suid'', ustr ''sct'', ustr ''ssuid'', ustr ''login'']"

definition is_login_cookie :: "world \<Rightarrow> cookie \<Rightarrow> bool" where
  "is_login_cookie w c \<longleftrightarrow> list_ex (\<lambda>key. sublist key (str_lower (library w) (ck_name c))) login_markers"

fun poll_login :: "world \<Rightarrow> nat list \<Rightarrow> crawler \<Rightarrow> (pyexc + bool) \<times> crawler" where
  "poll_login w [] st = (Inr False, st)"
| "poll_login w (i # rounds) st =
     (case context_cookies w (ticks st) of
        Inl x \<Rightarrow> (Inl x, tick st)
      | Inr cookies \<Rightarrow>
          if filter (is_login_cookie w) cookies \<noteq> [] then (Inr True, tick st)
          else
            (case login_button_visible w (ticks (tick st)) of
               Inr False \<Rightarrow> (Inr True, tick (tick st))
             | _ \<Rightarrow> poll_login w rounds (sleep (Fixed 1) (tick (tick st)))))"

text \<open>
  The \<open>try\<close> block of \<open>playwright_login\<close> after the loop: on success it reads the
  cookies, saves them, copies them to the anti-crawler session, closes the page and
  returns \<open>True\<close>; otherwise it returns \<open>False\<close>.
\<close>

definition finish_login :: "world \<Rightarrow> bool \<Rightarrow> crawler \<Rightarrow> (pyexc + bool) \<times> crawler" where
  "finish_login w login_success st =
     (if login_success then
        (case context_cookies w (ticks st) of
           Inl x \<Rightarrow> (Inl x, tick st)
         | Inr all_cookies \<Rightarrow>
             let st = save_login_cookies w all_cookies (tick st);
                 st = (if use_anti_crawler st
                       then st \<lparr> anti_crawler_cookies :=
                                   jar_update all_cookies (anti_crawler_cookies st) \<rparr>
                       else st)
             in (case close_page w (ticks st) of
                   Some x \<Rightarrow> (Inl x, tick st)
                 | None \<Rightarrow> (Inr True, tick st)))
      else (Inr False, st))"

definition login_try_block :: "world \<Rightarrow> crawler \<Rightarrow> (pyexc + bool) \<times> crawler" where
  "login_try_block w st =
     (case open_login_page w (ticks st) of
        Some x \<Rightarrow> (Inl x, tick st)
      | None \<Rightarrow>
          (case poll_login w [0..<60] (tick st) of
             (Inl x, st') \<Rightarrow> (Inl x, st')
           | (Inr login_success, st') \<Rightarrow> finish_login w login_success st'))"

text \<open>
  \<open>playwright_login\<close>: \<open>init_playwright\<close> stands before the \<open>try\<close>, so its exception
  reaches the caller; the handler \<open>except Exception: return False\<close> covers the rest.
\<close>

definition playwright_login :: "world \<Rightarrow> crawler \<Rightarrow> (pyexc + bool) \<times> crawler" where
  "playwright_login w st =
     (case init_playwright w st of
        (Inl x, st') \<Rightarrow> (Inl x, st')
      | (Inr u, st') \<Rightarrow>
          (case login_try_block w st' of
             (Inl x, st'') \<Rightarrow> (Inr False, st'')
           | (Inr b, st'') \<Rightarrow> (Inr b, st'')))"

definition login :: "world \<Rightarrow> bool \<Rightarrow> crawler \<Rightarrow> (pyexc + bool) \<times> crawler" where
  "login w force_login st =
     (if is_logged_in st \<and> \<not> force_login then (Inr True, st) else playwright_login w st)"


subsection \<open>Example values of the crawler's closed theorems\<close>

text \<open>
  An environment in which nothing raises and nobody logs in: the browser shows no cookie
  and the login control stays visible, every page is empty (status 200, no listing item),
  the configuration file does not exist. A crawler that has just been created without
  saved cookies.
\<close>

definition quiet_world :: world where
  "quiet_world = \<lparr> start_browser = (\<lambda>t. None), open_login_page = (\<lambda>t. None),
     context_cookies = (\<lambda>t. Inr []), login_button_visible = (\<lambda>t. Inr True),
     pickle_dump = (\<lambda>t. None), close_page = (\<lambda>t. None), remove_file = (\<lambda>t. None),
     http_get = (\<lambda>t url. Inr \<lparr> status_code = 200, resp_text = [] \<rparr>),
     search_get = (\<lambda>t query page. Inr \<lparr> status_code = 200, resp_text = [] \<rparr>),
     save_env_at = (\<lambda>t. save_on (on_day 2026 11 3)),
     clock_at = (\<lambda>t i. on_day 2026 11 3),
     config_lines = (\<lambda>t. None),
     pool_schedule = (\<lambda>t. []),
     library = ascii_lib [] \<rparr>"

definition new_crawler :: crawler where
  "new_crawler = \<lparr> is_logged_in = False, keyword = ustr ''robots'', use_anti_crawler = True,
     playwright_started = False, cookie_file = None, login_session_cookies = [],
     anti_crawler_cookies = [], storage = [], handed = [], pauses = [], ticks = 0 \<rparr>"

section \<open>Resolving and fetching one article\<close>

text \<open>
  \<open>response.raise_for_status()\<close> raises \<open>HTTPError\<close>, a \<open>RequestException\<close>, on a
  status from 400 to 599.
\<close>

definition raise_for_status :: "http_response \<Rightarrow> pyexc option" where
  "raise_for_status response =
     (if 400 \<le> status_code response \<and> status_code response < 600
      then Some (RequestException (ustr ''HTTPError'')) else None)"

text \<open>
  \<open>get_real_wechat_url\<close>: the handler catches \<open>requests.RequestException\<close> only, so
  any other exception of the HTTP session leaves the function.
\<close>

definition get_real_wechat_url :: "world \<Rightarrow> pystr \<Rightarrow> crawler \<Rightarrow> (pyexc + pystr option) \<times> crawler" where
  "get_real_wechat_url w url st =
     (case http_get w (ticks st) url of
        Inl (RequestException m) \<Rightarrow> (Inr None, tick st)
      | Inl (OtherException m) \<Rightarrow> (Inl (OtherException m), tick st)
      | Inr response \<Rightarrow>
          (case raise_for_status response of
             Some x \<Rightarrow> (Inr None, tick st)
           | None \<Rightarrow>
               (case extract_real_url (resp_text response) of
                  Some real \<Rightarrow> (if real \<noteq> [] then (Inr (Some real), tick st)
                                else (Inr None, tick st))
                | None \<Rightarrow> (Inr None, tick st))))"

text \<open>
  \<open>extract_article_text\<close>: the text of the first selector that finds an element, the
  text of \<open>body\<close> when that is empty, then the non-blank lines, stripped.
  \<open>get_text(separator='\n', strip=True)\<close> joins the stripped, non-empty strings with
  newlines.
\<close>

fun py_join :: "pystr \<Rightarrow> pystr list \<Rightarrow> pystr" where
  "py_join sep [] = []"
| "py_join sep [x] = x"
| "py_join sep (x # y # ys) = x @ sep @ py_join sep (y # ys)"

fun py_split :: "nat \<Rightarrow> pystr \<Rightarrow> pystr list" where
  "py_split c [] = [[]]"
| "py_split c (x # xs) =
     (if x = c then [] # py_split c xs
      else (case py_split c xs of l # ls \<Rightarrow> (x # l) # ls | [] \<Rightarrow> [[x]]))"

definition get_text_lines :: "element \<Rightarrow> pystr" where
  "get_text_lines e = py_join [10] (filter (\<lambda>s. s \<noteq> []) (map py_strip (el_strings e)))"

fun first_selected :: "element option list \<Rightarrow> pystr" where
  "first_selected [] = []"
| "first_selected (Some content_elem # selectors) = get_text_lines content_elem"
| "first_selected (None # selectors) = first_selected selectors"

definition extract_article_text :: "article_page \<Rightarrow> pystr \<times> pystr" where
  "extract_article_text soup =
     (let content_text = first_selected (ap_selected soup);
          content_text =
            (if content_text = []
             then (case ap_body soup of Some b \<Rightarrow> get_text_lines b | None \<Rightarrow> content_text)
             else content_text);
          lines = filter (\<lambda>line. line \<noteq> []) (map py_strip (py_split 10 content_text));
          clean_content = py_join [10] lines;
          address_text = []
      in (clean_content, address_text))"

text \<open>
  \<open>fetch_article_content\<close>: content, address and the success flag. Both handlers
  (\<open>RequestException\<close> and \<open>Exception\<close>) return the failure value.
\<close>

definition fetch_article_content :: "world \<Rightarrow> pystr \<Rightarrow> crawler \<Rightarrow> (pystr \<times> pystr \<times> bool) \<times> crawler" where
  "fetch_article_content w url st =
     (case http_get w (ticks st) url of
        Inl x \<Rightarrow> (([], [], False), tick st)
      | Inr response \<Rightarrow>
          (case raise_for_status response of
             Some x \<Rightarrow> (([], [], False), tick st)
           | None \<Rightarrow>
               (case parse_article_page (library w) (resp_text response) of
                  Inl x \<Rightarrow> (([], [], False), tick st)
                | Inr soup \<Rightarrow>
                    (let (clean_content, address_text) = extract_article_text soup
                     in ((clean_content, address_text, True), tick st)))))"

text \<open>
  \<open>save_article_to_storage\<close>: the dictionary of the record's string fields with the
  crawler's keyword, handed to the store.
\<close>

definition article_dict :: "pystr \<Rightarrow> article \<Rightarrow> pydict" where
  "article_dict kw a =
     [''title'' \<mapsto> title a, ''summary'' \<mapsto> summary a, ''source'' \<mapsto> source a,
      ''publish_time'' \<mapsto> publish_time a, ''address'' \<mapsto> address a,
      ''sogou_url'' \<mapsto> sogou_url a, ''real_url'' \<mapsto> real_url a, ''content'' \<mapsto> content a,
      ''crawl_time'' \<mapsto> crawl_time a, ''keyword'' \<mapsto> kw]"

definition save_article_to_storage :: "world \<Rightarrow> article \<Rightarrow> crawler \<Rightarrow> bool \<times> crawler" where
  "save_article_to_storage w a st =
     (let (saved, rows) = save_article (md5_hexdigest (library w)) (save_env_at w (ticks st))
                            (article_dict (keyword st) a) (storage st)
      in (saved, tick (st \<lparr> storage := rows, handed := handed st @ [a] \<rparr>)))"

section \<open>BatchRunner: the two thread pools\<close>

text \<open>
  \<open>list(executor.map(worker, items))\<close>: every item is given to the pool, the pool runs
  the workers in some order, and the results are read in the order of the items; the
  first exception among them, in that order, is raised. A worker here is a function from
  an item and the crawler to a result and the crawler; the order of the runs comes from
  the environment (\<open>pool_order\<close> reads any list of numbers as an order of the indices).
\<close>

definition pool_order :: "nat list \<Rightarrow> nat \<Rightarrow> nat list" where
  "pool_order sched n =
     remdups (filter (\<lambda>i. i < n) sched) @ filter (\<lambda>i. i \<notin> set sched) [0..<n]"

fun run_pool :: "('a \<Rightarrow> 's \<Rightarrow> (pyexc + 'a) \<times> 's) \<Rightarrow> nat list \<Rightarrow> 'a list \<Rightarrow>
    (pyexc + 'a) list \<Rightarrow> 's \<Rightarrow> (pyexc + 'a) list \<times> 's" where
  "run_pool worker [] items results st = (results, st)"
| "run_pool worker (i # order) items results st =
     (let (r, st') = worker (items ! i) st
      in run_pool worker order items (results[i := r]) st')"

fun collect_results :: "(pyexc + 'a) list \<Rightarrow> pyexc + 'a list" where
  "collect_results [] = Inr []"
| "collect_results (Inl x # rs) = Inl x"
| "collect_results (Inr a # rs) =
     (case collect_results rs of Inl x \<Rightarrow> Inl x | Inr as \<Rightarrow> Inr (a # as))"

definition executor_map :: "('a \<Rightarrow> 's \<Rightarrow> (pyexc + 'a) \<times> 's) \<Rightarrow> nat list \<Rightarrow> 'a list \<Rightarrow> 's \<Rightarrow>
    (pyexc + 'a list) \<times> 's" where
  "executor_map worker sched items st =
     (let (results, st') =
            run_pool worker (pool_order sched (length items)) items (map Inr items) st
      in (collect_results results, st'))"

text \<open>\<open>get_real_urls_batch\<close> and its worker \<open>process_article\<close>.\<close>

definition process_article :: "world \<Rightarrow> article \<Rightarrow> crawler \<Rightarrow> (pyexc + article) \<times> crawler" where
  "process_article w a st =
     (if sogou_url a \<noteq> [] then
        (case get_real_wechat_url w (sogou_url a) st of
           (Inl x, st') \<Rightarrow> (Inl x, st')
         | (Inr (Some real), st') \<Rightarrow>
             (Inr (a \<lparr> real_url := real, success := True \<rparr>), sleep (Fixed 1) st')
         | (Inr None, st') \<Rightarrow> (Inr (a \<lparr> success := False \<rparr>), sleep (Fixed 1) st'))
      else (Inr a, st))"

definition get_real_urls_batch :: "world \<Rightarrow> article list \<Rightarrow> crawler \<Rightarrow> (pyexc + article list) \<times> crawler" where
  "get_real_urls_batch w articles st =
     executor_map (process_article w) (pool_schedule w (ticks st)) articles (tick st)"

text \<open>
  \<open>fetch_contents_batch\<close> and its worker \<open>fetch_content\<close>. The worker changes the
  record it is given and returns it, and the batch puts the processed records back by
  object identity: in a list of distinct objects, as the parser builds it, the \<open>k\<close>-th valid
  record is replaced by the \<open>k\<close>-th processed one (\<open>merge_valid\<close>).
\<close>

definition fetch_content :: "world \<Rightarrow> article \<Rightarrow> crawler \<Rightarrow> (pyexc + article) \<times> crawler" where
  "fetch_content w a st =
     (if real_url a \<noteq> [] \<and> success a then
        (let ((c, ad, ok), st1) = fetch_article_content w (real_url a) st;
             a' = a \<lparr> content := c, address := ad, content_fetched := ok \<rparr>;
             st2 = (if content_fetched a' then snd (save_article_to_storage w a' st1) else st1)
         in (Inr a', sleep (Fixed 2) st2))
      else (Inr a, st))"

definition is_valid :: "article \<Rightarrow> bool" where
  "is_valid a \<longleftrightarrow> success a \<and> real_url a \<noteq> []"

fun merge_valid :: "article list \<Rightarrow> article list \<Rightarrow> article list" where
  "merge_valid [] processed = []"
| "merge_valid (a # articles) processed =
     (if is_valid a then
        (case processed of
           p # processed' \<Rightarrow> p # merge_valid articles processed'
         | [] \<Rightarrow> a # merge_valid articles [])
      else a # merge_valid articles processed)"

definition fetch_contents_batch :: "world \<Rightarrow> article list \<Rightarrow> crawler \<Rightarrow> (pyexc + article list) \<times> crawler" where
  "fetch_contents_batch w articles st =
     (let valid_articles = filter is_valid articles in
      if valid_articles = [] then (Inr articles, st)
      else
        (case executor_map (fetch_content w) (pool_schedule w (ticks st)) valid_articles (tick st) of
           (Inl x, st') \<Rightarrow> (Inl x, st')
         | (Inr processed_valid, st') \<Rightarrow> (Inr (merge_valid articles processed_valid), st')))"


section \<open>CrawlPipeline: \<open>search_articles\<close>, \<open>crawl_and_extract\<close> and the driving loop\<close>

text \<open>
  \<open>search_articles\<close>: a request to the home page, a pause, the search request, the
  parse. The handler catches \<open>requests.RequestException\<close> and returns no records; any
  other exception leaves the function. The time range is accepted and not used.
\<close>

definition home_url :: pystr where
  "home_url = ustr ''https://weixin.sogou.com/''"

definition search_try_block :: "world \<Rightarrow> pystr \<Rightarrow> int \<Rightarrow> crawler \<Rightarrow> (pyexc + article list) \<times> crawler" where
  "search_try_block w query page st =
     (case http_get w (ticks st) home_url of
        Inl x \<Rightarrow> (Inl x, tick st)
      | Inr home \<Rightarrow>
          (let st = sleep (Between 2 4) (tick st) in
           case search_get w (ticks st) query page of
             Inl x \<Rightarrow> (Inl x, tick st)
           | Inr response \<Rightarrow>
               (case raise_for_status response of
                  Some x \<Rightarrow> (Inl x, tick st)
                | None \<Rightarrow>
                    (parse_search_results (library w) (clock_at w (ticks (tick st)))
                       (resp_text response),
                     tick (tick st)))))"

definition search_articles :: "world \<Rightarrow> pystr \<Rightarrow> int \<Rightarrow> crawler \<Rightarrow> (pyexc + article list) \<times> crawler" where
  "search_articles w query page st =
     (case search_try_block w query page st of
        (Inl (RequestException m), st') \<Rightarrow> (Inr [], st')
      | (Inl (OtherException m), st') \<Rightarrow> (Inl (OtherException m), st')
      | (Inr articles, st') \<Rightarrow> (Inr articles, st'))"

text \<open>
  The result dictionaries. The message texts of the source are kept by kind, with the
  numbers they mention: login failed, re-login failed, \<open>n\<close> articles crawled (and \<open>m\<close>
  contents fetched, when content was asked for), the text of an exception, no account
  configured, \<open>n\<close> accounts done.
\<close>

datatype message =
  LoginFailed | ReloginFailed | Crawled nat "nat option" | ErrorText pystr
  | NoAccounts | AccountsDone nat

record crawl_result =
  cr_success :: bool
  cr_message :: message
  cr_data :: "article list"

text \<open>
  What ends a call other than a return: an exception, or \<open>sys.exit(code)\<close>, which raises
  \<open>SystemExit\<close>. \<open>SystemExit\<close> is not a subclass of \<open>Exception\<close>, so
  \<open>except Exception\<close> does not catch it.
\<close>

datatype abort = Raise pyexc | SystemExit int

definition exc_text :: "pyexc \<Rightarrow> pystr" where
  "exc_text x = (case x of RequestException m \<Rightarrow> m | OtherException m \<Rightarrow> m)"

definition failure :: "message \<Rightarrow> crawl_result" where
  "failure m = \<lparr> cr_success = False, cr_message = m, cr_data = [] \<rparr>"

text \<open>
  The branch \<open>if not articles\<close> of \<open>crawl_and_extract\<close>: a pause of 60 seconds, the
  cookie file removed, both jars cleared, \<open>is_logged_in\<close> cleared, a forced login and,
  when that succeeds, one more search of the same page; if that finds nothing,
  \<open>sys.exit(0)\<close>. \<open>Inr (Inl r)\<close> returns \<open>r\<close> from \<open>crawl_and_extract\<close>,
  \<open>Inr (Inr articles)\<close> goes on with the records.
\<close>

definition clear_session :: "world \<Rightarrow> crawler \<Rightarrow> (pyexc + unit) \<times> crawler" where
  "clear_session w st =
     (let removed =
            (if cookie_file st \<noteq> None
             then (case remove_file w (ticks st) of
                     Some x \<Rightarrow> (Inl x, tick st)
                   | None \<Rightarrow> (Inr (), tick (st \<lparr> cookie_file := None \<rparr>)))
             else (Inr (), st))
      in case removed of
           (Inl x, st') \<Rightarrow> (Inl x, st')
         | (Inr u, st') \<Rightarrow>
             (Inr (), st' \<lparr> login_session_cookies := [],
                            anti_crawler_cookies :=
                              (if use_anti_crawler st' then [] else anti_crawler_cookies st'),
                            is_logged_in := False \<rparr>))"

definition recover_session ::
  "world \<Rightarrow> pystr \<Rightarrow> int \<Rightarrow> crawler \<Rightarrow> (abort + (crawl_result + article list)) \<times> crawler" where
  "recover_session w query page st =
     (case clear_session w (sleep (Fixed 60) st) of
        (Inl x, st') \<Rightarrow> (Inl (Raise x), st')
      | (Inr u, st') \<Rightarrow>
          (case login w True st' of
             (Inl x, st'') \<Rightarrow> (Inl (Raise x), st'')
           | (Inr False, st'') \<Rightarrow> (Inr (Inl (failure ReloginFailed)), st'')
           | (Inr True, st'') \<Rightarrow>
               (case search_articles w query page st'' of
                  (Inl x, st3) \<Rightarrow> (Inl (Raise x), st3)
                | (Inr articles, st3) \<Rightarrow>
                    if articles = [] then (Inl (SystemExit 0), st3)
                    else (Inr (Inr articles), st3))))"

text \<open>The steps of \<open>crawl_and_extract\<close> after the search, from the records on.\<close>

definition resolve_and_fetch ::
  "world \<Rightarrow> bool \<Rightarrow> bool \<Rightarrow> article list \<Rightarrow> crawler \<Rightarrow> (abort + crawl_result) \<times> crawler" where
  "resolve_and_fetch w get_real_urls fetch_content_wanted articles st =
     (case (if get_real_urls then get_real_urls_batch w articles st else (Inr articles, st)) of
        (Inl x, st') \<Rightarrow> (Inl (Raise x), st')
      | (Inr articles, st') \<Rightarrow>
          (case (if fetch_content_wanted \<and> get_real_urls then fetch_contents_batch w articles st'
                 else (Inr articles, st')) of
             (Inl x, st'') \<Rightarrow> (Inl (Raise x), st'')
           | (Inr articles, st'') \<Rightarrow>
               (let total_articles = length articles;
                    content_fetched_count = length (filter content_fetched articles)
                in (Inr \<lparr> cr_success = True,
                          cr_message = Crawled total_articles
                            (if fetch_content_wanted then Some content_fetched_count else None),
                          cr_data = articles \<rparr>, st''))))"

definition crawl_try_block ::
  "world \<Rightarrow> pystr \<Rightarrow> int \<Rightarrow> bool \<Rightarrow> bool \<Rightarrow> crawler \<Rightarrow> (abort + crawl_result) \<times> crawler" where
  "crawl_try_block w query page get_real_urls fetch_content_wanted st =
     (case (if \<not> is_logged_in st then login w False st else (Inr True, st)) of
        (Inl x, st') \<Rightarrow> (Inl (Raise x), st')
      | (Inr False, st') \<Rightarrow> (Inr (failure LoginFailed), st')
      | (Inr True, st') \<Rightarrow>
          (case search_articles w query page st' of
             (Inl x, st'') \<Rightarrow> (Inl (Raise x), st'')
           | (Inr articles, st'') \<Rightarrow>
               if articles = [] then
                 (case recover_session w query page st'' of
                    (Inl ab, st3) \<Rightarrow> (Inl ab, st3)
                  | (Inr (Inl r), st3) \<Rightarrow> (Inr r, st3)
                  | (Inr (Inr articles), st3) \<Rightarrow>
                      resolve_and_fetch w get_real_urls fetch_content_wanted articles st3)
               else resolve_and_fetch w get_real_urls fetch_content_wanted articles st''))"

text \<open>
  \<open>crawl_and_extract\<close>: the \<open>try\<close> block and the handler \<open>except Exception\<close>, which
  turns an exception into a failure result with its text and lets \<open>SystemExit\<close> pass.
\<close>

definition crawl_and_extract ::
  "world \<Rightarrow> pystr \<Rightarrow> int \<Rightarrow> bool \<Rightarrow> bool \<Rightarrow> crawler \<Rightarrow> (abort + crawl_result) \<times> crawler" where
  "crawl_and_extract w query page get_real_urls fetch_content_wanted st =
     (case crawl_try_block w query page get_real_urls fetch_content_wanted st of
        (Inl (Raise x), st') \<Rightarrow> (Inr (failure (ErrorText (exc_text x))), st')
      | (Inl (SystemExit code), st') \<Rightarrow> (Inl (SystemExit code), st')
      | (Inr r, st') \<Rightarrow> (Inr r, st'))"

text \<open>
  \<open>load_wechat_accounts\<close>: the stripped lines of the configuration file that are
  neither empty nor comments; no account when the file is missing or reading raises.
\<close>

definition load_wechat_accounts :: "world \<Rightarrow> crawler \<Rightarrow> pystr list \<times> crawler" where
  "load_wechat_accounts w st =
     (case config_lines w (ticks st) of
        None \<Rightarrow> ([], tick st)
      | Some (Inl x) \<Rightarrow> ([], tick st)
      | Some (Inr lines) \<Rightarrow>
          (filter (\<lambda>line. line \<noteq> [] \<and> \<not> prefix (ustr ''#'') line) (map py_strip lines),
           tick st))"

text \<open>
  The entries of \<open>all_results\<close>: the account with the result of one page; the entry of
  the handler in the loop has no \<open>data\<close>.
\<close>

record page_entry =
  pe_account :: pystr
  pe_success :: bool
  pe_message :: message
  pe_data :: "article list option"

record accounts_result =
  ar_success :: bool
  ar_message :: message
  ar_data :: "page_entry list"

definition entry_of :: "pystr \<Rightarrow> crawl_result \<Rightarrow> page_entry" where
  "entry_of account r = \<lparr> pe_account = account, pe_success = cr_success r,
     pe_message = cr_message r, pe_data = Some (cr_data r) \<rparr>"

definition error_entry :: "pystr \<Rightarrow> pyexc \<Rightarrow> page_entry" where
  "error_entry account x = \<lparr> pe_account = account, pe_success = False,
     pe_message = ErrorText (exc_text x), pe_data = None \<rparr>"

text \<open>
  The inner loop \<open>for p in range(67, page)\<close>: one call of \<open>crawl_and_extract\<close> per page,
  its result appended, a pause of 3 to 5 seconds; the handler appends an error entry and
  goes on. \<open>SystemExit\<close> leaves the loop and the function.
\<close>

fun pages_loop ::
  "world \<Rightarrow> pystr \<Rightarrow> int \<Rightarrow> bool \<Rightarrow> bool \<Rightarrow> int list \<Rightarrow> page_entry list \<Rightarrow> crawler \<Rightarrow>
     (abort + page_entry list) \<times> crawler" where
  "pages_loop w account page get_real_urls fetch_content_wanted [] all_results st =
     (Inr all_results, st)"
| "pages_loop w account page get_real_urls fetch_content_wanted (p # ps) all_results st =
     (case crawl_and_extract w account p get_real_urls fetch_content_wanted st of
        (Inl (SystemExit code), st') \<Rightarrow> (Inl (SystemExit code), st')
      | (Inl (Raise x), st') \<Rightarrow>
          pages_loop w account page get_real_urls fetch_content_wanted ps
            (all_results @ [error_entry account x]) st'
      | (Inr result, st') \<Rightarrow>
          pages_loop w account page get_real_urls fetch_content_wanted ps
            (all_results @ [entry_of account result])
            (if p < page then sleep (Between 3 5) st' else st'))"

text \<open>
  The outer loop \<open>for i, account in enumerate(accounts, 1)\<close>. The \<open>return\<close> of the
  function stands inside this loop, after the inner loop: the function returns at the end
  of the first turn. With no account the loop body never runs and the function ends
  without a \<open>return\<close> statement (\<open>None\<close>).
\<close>

fun accounts_loop ::
  "world \<Rightarrow> pystr list \<Rightarrow> bool \<Rightarrow> bool \<Rightarrow> int option \<Rightarrow> pystr list \<Rightarrow> page_entry list \<Rightarrow>
     crawler \<Rightarrow> (abort + accounts_result option) \<times> crawler" where
  "accounts_loop w accounts get_real_urls fetch_content_wanted page [] all_results st =
     (Inr None, st)"
| "accounts_loop w accounts get_real_urls fetch_content_wanted page (account # later) all_results st =
     (let page = (case page of None \<Rightarrow> 3000 | Some n \<Rightarrow> n) in
      case pages_loop w account page get_real_urls fetch_content_wanted [67..page - 1]
             all_results st of
        (Inl ab, st') \<Rightarrow> (Inl ab, st')
      | (Inr all_results, st') \<Rightarrow>
          (Inr (Some \<lparr> ar_success = list_ex pe_success all_results,
                       ar_message = AccountsDone (length accounts),
                       ar_data = all_results \<rparr>), st'))"

definition crawl_all_configured_accounts ::
  "world \<Rightarrow> bool \<Rightarrow> bool \<Rightarrow> int option \<Rightarrow> crawler \<Rightarrow> (abort + accounts_result option) \<times> crawler" where
  "crawl_all_configured_accounts w get_real_urls fetch_content_wanted page st =
     (case (if \<not> is_logged_in st then login w False st else (Inr True, st)) of
        (Inl x, st') \<Rightarrow> (Inl (Raise x), st')
      | (Inr False, st') \<Rightarrow>
          (Inr (Some \<lparr> ar_success = False, ar_message = LoginFailed, ar_data = [] \<rparr>), st')
      | (Inr True, st') \<Rightarrow>
          (let (accounts, st'') = load_wechat_accounts w st' in
           if accounts = [] then
             (Inr (Some \<lparr> ar_success = False, ar_message = NoAccounts, ar_data = [] \<rparr>), st'')
           else accounts_loop w accounts get_real_urls fetch_content_wanted page accounts [] st''))"

subsection \<open>What has been handed to the store\<close>

text \<open>
  The records handed to \<open>save_article_to_storage\<close> between two states, and the records
  the pipeline may persist: fetched, resolved, with a real URL.
\<close>

definition handed_since :: "crawler \<Rightarrow> crawler \<Rightarrow> article list" where
  "handed_since st st' = drop (length (handed st)) (handed st')"

definition persistable :: "article \<Rightarrow> bool" where
  "persistable a \<longleftrightarrow> content_fetched a \<and> success a \<and> real_url a \<noteq> []"

definition hands_fetched_only :: "crawler \<Rightarrow> crawler \<Rightarrow> bool" where
  "hands_fetched_only st st' \<longleftrightarrow>
     prefix (handed st) (handed st') \<and> list_all persistable (handed_since st st')"


subsection \<open>Example values of the pipeline's closed theorems\<close>

text \<open>
  A record as the parser leaves it, with the given redirect link, and a record as the
  resolver leaves it, with the given real URL. An environment in which every request for
  the URL \<open>bad\<close> raises an exception that is not a \<open>RequestException\<close> and every other
  page is a redirect page to one article, and one in which every request times out.
\<close>

definition listed :: "pystr \<Rightarrow> article" where
  "listed url = WeChatArticle \<lparr> title := ustr ''T'', sogou_url := url \<rparr>"

definition resolved :: "pystr \<Rightarrow> article" where
  "resolved url = WeChatArticle \<lparr> title := ustr ''T'', real_url := url, success := True \<rparr>"


definition broken_world :: world where
  "broken_world = quiet_world \<lparr> http_get :=
     (\<lambda>t url. if url = ustr ''bad'' then Inl (OtherException (ustr ''boom''))
              else Inr \<lparr> status_code = 200, resp_text = url_stmt (ustr ''https://a/s?x'') \<rparr>) \<rparr>"

text \<open>
  An environment in which the session is dead and a login always succeeds: every search
  page is empty and the login control disappears at once; its configuration file names
  one account. An environment with two accounts in which every search page lists one item.
\<close>

definition dead_session_world :: world where
  "dead_session_world = quiet_world \<lparr> login_button_visible := (\<lambda>t. Inr False),
     config_lines := (\<lambda>t. Some (Inr [ustr ''robots''])) \<rparr>"

definition two_accounts_world :: world where
  "two_accounts_world = quiet_world \<lparr>
     config_lines := (\<lambda>t. Some (Inr [ustr ''alpha'', ustr ''beta''])),
     library := ascii_lib [plain_item (ustr ''T'') []] \<rparr>"


text \<open>
  A listing item whose heading links to the given URL, and an environment in which every
  search page lists one such item, the link resolves and the article page can be fetched.
\<close>

definition linked_item :: "pystr \<Rightarrow> news_item" where
  "linked_item url = (plain_item (ustr ''T'') [])
     \<lparr> sel_h3_a := Some \<lparr> el_strings = [ustr ''T''], el_href = Some url \<rparr> \<rparr>"

definition serving_world :: world where
  "serving_world = broken_world \<lparr> library := ascii_lib [linked_item (ustr ''good'')] \<rparr>"

text \<open>An environment in which the browser cannot be started.\<close>

definition no_browser_world :: world where
  "no_browser_world = quiet_world \<lparr> start_browser :=
     (\<lambda>t. Some (OtherException (ustr ''no browser''))) \<rparr>"

section \<open>Properties of \<open>extract_real_url\<close> (claim C2)\<close>















lemmas rx_eval = extract_real_url_def url_fragments_def rx_findall_def ustr_def
  article_prefix_def url_pattern_def full_url_pattern_def url_open_def url_close_def
  apos_def dquote_def py_strip_def py_isspace_def Let_def




section \<open>Properties of the store (claims C5 and C10)\<close>

lemma pad2_inj:
  assumes "a < 100" and "b < 100" and "pad2 a = pad2 b"
  shows "a = b"
proof -
  have d: "a div 10 mod 10 = b div 10 mod 10" and m: "a mod 10 = b mod 10"
    using assms(3) by (simp_all add: pad2_def)
  have "a div 10 < 10" and "b div 10 < 10" using assms(1,2) by simp_all
  then have "a div 10 = b div 10" using d by simp
  then show ?thesis using m by (metis div_mult_mod_eq)
qed

lemma length_pad2: "length (pad2 n) = 2"
  by (simp add: pad2_def)

lemma pad4_inj:
  assumes "a < 10000" and "b < 10000" and "pad4 a = pad4 b"
  shows "a = b"
proof -
  have e: "pad2 (a div 100) = pad2 (b div 100)" "pad2 (a mod 100) = pad2 (b mod 100)"
    using assms(3) by (simp_all add: pad4_def length_pad2)
  have "a div 100 < 100" and "b div 100 < 100" using assms(1,2) by simp_all
  then have "a div 100 = b div 100" using e(1) pad2_inj by blast
  moreover have "a mod 100 = b mod 100" using e(2) pad2_inj by simp
  ultimately show ?thesis by (metis div_mult_mod_eq)
qed

lemma strftime_ymd_inj:
  assumes "valid_datetime s" and "valid_datetime t" and "strftime_ymd s = strftime_ymd t"
  shows "dt_year s = dt_year t \<and> dt_month s = dt_month t \<and> dt_day s = dt_day t"
proof -
  have l4: "length (pad4 n) = 4" for n
    by (simp add: pad4_def length_pad2)
  from assms(3) have y: "pad4 (dt_year s) = pad4 (dt_year t)"
    and m: "pad2 (dt_month s) = pad2 (dt_month t)" and d: "pad2 (dt_day s) = pad2 (dt_day t)"
    by (simp_all add: strftime_ymd_def l4 length_pad2 ustr_def)
  have "dt_year s = dt_year t"
    using y assms(1,2) by (intro pad4_inj) (simp_all add: valid_datetime_def)
  moreover have "dt_month s = dt_month t"
    using m assms(1,2) by (intro pad2_inj) (simp_all add: valid_datetime_def)
  moreover have "dt_day s = dt_day t"
    using d assms(1,2) by (intro pad2_inj) (simp_all add: valid_datetime_def)
  ultimately show ?thesis by simp
qed

lemma length_strftime_ymd: "length (strftime_ymd t) = 10"
  by (simp add: strftime_ymd_def pad4_def pad2_def ustr_def)


lemma save_article_keys_mono:
  "object_key ` set db \<subseteq> object_key ` set (snd (save_article md5 e a db))"
  by (auto simp: save_article_def save_article_body_def insert_or_ignore_def Let_def
      split: sum.splits option.splits)

lemma save_sequence_keys_mono:
  "object_key ` set db \<subseteq> object_key ` set (save_sequence md5 calls db)"
proof (induction calls arbitrary: db)
  case Nil
  show ?case by simp
next
  case (Cons c calls)
  obtain e a where c: "c = (e, a)" by (cases c)
  show ?case
    using save_article_keys_mono [of db md5 e a] Cons.IH [of "snd (save_article md5 e a db)"]
    by (auto simp: c)
qed

lemma save_article_fresh:
  assumes "generate_object_key md5 (now_default e) (now_date e) a = Inr key"
    and "db_error e = None" and "key \<notin> object_key ` set db"
  shows "fst (save_article md5 e a db) = True"
    and "key \<in> object_key ` set (snd (save_article md5 e a db))"
    and "length (snd (save_article md5 e a db)) = Suc (length db)"
  using assms
  by (simp_all add: save_article_def save_article_body_def insert_or_ignore_def)

lemma save_article_duplicate:
  assumes "generate_object_key md5 (now_default e) (now_date e) a = Inr key"
    and "key \<in> object_key ` set db"
  shows "save_article md5 e a db = (False, db)"
  using assms
  by (simp add: save_article_def save_article_body_def insert_or_ignore_def
      split: option.splits)

lemma generate_object_key_same:
  assumes "a1 ''title'' = a2 ''title''"
    and "a1 ''publish_time'' = Some p" and "a2 ''publish_time'' = Some p"
    and "10 \<le> length p \<or> strftime_ymd t1 = strftime_ymd t2"
  shows "generate_object_key md5 n1 t1 a1 = generate_object_key md5 n2 t2 a2"
  using assms by (auto simp: generate_object_key_def dict_get_def Let_def)

text \<open>
  Claim C5, as the code has it. Two records with the same title and the same publish time
  derive the same object key when the publish time has at least 10 characters, or when
  both saves read the same date from the clock. Then, if the first insert succeeds (the key
  can be derived, the database does not raise, and no row has the key yet), the first call
  returns \<open>True\<close> and the second returns \<open>False\<close>, whatever is saved in between
  and whether or not the database raises at the second call. \<open>save_article\<close> returns
  a truth value in every case: its handler catches every \<open>Exception\<close>.
\<close>

theorem save_article_twice:
  assumes "a1 ''title'' = a2 ''title''"
    and "a1 ''publish_time'' = Some p" and "a2 ''publish_time'' = Some p"
    and "10 \<le> length p \<or> strftime_ymd (now_date e1) = strftime_ymd (now_date e2)"
    and "generate_object_key md5 (now_default e1) (now_date e1) a1 = Inr key"
    and "db_error e1 = None" and "key \<notin> object_key ` set db"
  shows "fst (save_article md5 e1 a1 db) = True \<and>
         fst (save_article md5 e2 a2
                (save_sequence md5 calls (snd (save_article md5 e1 a1 db)))) = False"
proof -
  let ?db1 = "snd (save_article md5 e1 a1 db)"
  let ?db2 = "save_sequence md5 calls ?db1"
  have k2: "generate_object_key md5 (now_default e2) (now_date e2) a2 = Inr key"
    using generate_object_key_same [OF assms(1-4), of md5 "now_default e1" "now_default e2"]
      assms(5) by simp
  have "key \<in> object_key ` set ?db1"
    using save_article_fresh(2) [OF assms(5-7)] .
  then have "key \<in> object_key ` set ?db2"
    using save_sequence_keys_mono [of ?db1 md5 calls] by blast
  then have "save_article md5 e2 a2 ?db2 = (False, ?db2)"
    using save_article_duplicate [OF k2] by blast
  then show ?thesis
    using save_article_fresh(1) [OF assms(5-7)] by simp
qed

lemmas store_eval = save_article_def save_article_body_def insert_or_ignore_def
  generate_object_key_def dict_get_def utf8_encodable_def strftime_ymd_def pad2_def pad4_def
  isoformat_def strftime_hms_def ustr_def Let_def save_on_def on_day_def digest_stub_def
  undated_article_def dated_article_def

text \<open>The same at a dated article saved on two days, with another save in between.\<close>

theorem save_article_twice_witness:
  "fst (save_article digest_stub (save_on (on_day 2026 11 3)) dated_article []) = True \<and>
   fst (save_article digest_stub (save_on (on_day 2026 11 4)) dated_article
          (save_sequence digest_stub [(save_on (on_day 2026 11 3), undated_article)]
             (snd (save_article digest_stub (save_on (on_day 2026 11 3)) dated_article [])))) = False"
proof -
  let ?e1 = "save_on (on_day 2026 11 3)" and ?e2 = "save_on (on_day 2026 11 4)"
  have h1: "dated_article ''title'' = dated_article ''title''" by simp
  have h2: "dated_article ''publish_time'' = Some (ustr ''2024-05-01 08:30:00'')"
    by (simp add: dated_article_def)
  have h4: "10 \<le> length (ustr ''2024-05-01 08:30:00'') \<or>
      strftime_ymd (now_date ?e1) = strftime_ymd (now_date ?e2)"
    by (simp add: ustr_def)
  have h5: "generate_object_key digest_stub (now_default ?e1) (now_date ?e1) dated_article =
      Inr (ustr ''2024-05-01/01234567'')"
    by (simp add: store_eval)
  have h6: "db_error ?e1 = None" by (simp add: save_on_def)
  have h7: "ustr ''2024-05-01/01234567'' \<notin> object_key ` set []" by simp
  show ?thesis
    using save_article_twice [where ?a1.0 = dated_article and ?a2.0 = dated_article
        and p = "ustr ''2024-05-01 08:30:00''" and ?e1.0 = ?e1 and ?e2.0 = ?e2
        and ?md5.0 = digest_stub and key = "ustr ''2024-05-01/01234567''" and db = "[]"
        and calls = "[(save_on (on_day 2026 11 3), undated_article)]"]
      h1 h2 h4 h5 h6 h7
    by blast
qed

text \<open>
  Claim C5 as stated fails for a record without a publish time: saved into an empty
  database on 2026-11-03 and again on 2026-11-04, the record is inserted both times.
\<close>

theorem save_article_undated_counterexample:
  "undated_article ''title'' = undated_article ''title'' \<and>
   undated_article ''publish_time'' = undated_article ''publish_time'' \<and>
   fst (save_article digest_stub (save_on (on_day 2026 11 3)) undated_article []) = True \<and>
   fst (save_article digest_stub (save_on (on_day 2026 11 4)) undated_article
          (snd (save_article digest_stub (save_on (on_day 2026 11 3)) undated_article []))) = True"
  by (simp add: store_eval)


lemma generate_object_key_undated:
  assumes "a ''publish_time'' = Some p" and "length p < 10"
    and "utf8_encodable (dict_get a ''title'' (ustr ''unknown'') @ p)"
  shows "generate_object_key md5 n t a =
           Inr (strftime_ymd t @ ustr ''/'' @
                take 8 (md5 (dict_get a ''title'' (ustr ''unknown'') @ p)))"
  using assms by (simp add: generate_object_key_def dict_get_def Let_def)

text \<open>
  Claim C10. For a record whose publish time has at least 10 characters the object key
  does not depend on the clock. For a record whose publish time is shorter, the first 10
  characters of the key are the date of the save call; two saves of the same record on
  different days derive different keys, and when neither key is in the database both
  calls return \<open>True\<close> and two rows are added.
\<close>

theorem object_key_depends_on_save_date:
  assumes "a ''publish_time'' = Some p"
  shows "(10 \<le> length p \<longrightarrow>
            generate_object_key md5 n1 t1 a = generate_object_key md5 n2 t2 a)
       \<and> (length p < 10 \<and> utf8_encodable (dict_get a ''title'' (ustr ''unknown'') @ p) \<and>
          valid_datetime (now_date e1) \<and> valid_datetime (now_date e2) \<and>
          (dt_year (now_date e1), dt_month (now_date e1), dt_day (now_date e1)) \<noteq>
          (dt_year (now_date e2), dt_month (now_date e2), dt_day (now_date e2)) \<and>
          db_error e1 = None \<and> db_error e2 = None \<and>
          k1 = strftime_ymd (now_date e1) @ ustr ''/'' @
               take 8 (md5 (dict_get a ''title'' (ustr ''unknown'') @ p)) \<and>
          k2 = strftime_ymd (now_date e2) @ ustr ''/'' @
               take 8 (md5 (dict_get a ''title'' (ustr ''unknown'') @ p)) \<and>
          k1 \<notin> object_key ` set db \<and> k2 \<notin> object_key ` set db
          \<longrightarrow>
            generate_object_key md5 (now_default e1) (now_date e1) a = Inr k1 \<and>
            generate_object_key md5 (now_default e2) (now_date e2) a = Inr k2 \<and>
            take 10 k1 = strftime_ymd (now_date e1) \<and>
            take 10 k2 = strftime_ymd (now_date e2) \<and>
            k1 \<noteq> k2 \<and>
            fst (save_article md5 e1 a db) = True \<and>
            fst (save_article md5 e2 a (snd (save_article md5 e1 a db))) = True \<and>
            length (snd (save_article md5 e2 a (snd (save_article md5 e1 a db)))) =
              length db + 2)"
proof (intro conjI impI)
  assume "10 \<le> length p"
  then show "generate_object_key md5 n1 t1 a = generate_object_key md5 n2 t2 a"
    using generate_object_key_same [where ?a1.0 = a and ?a2.0 = a and p = p and ?t1.0 = t1
        and ?t2.0 = t2 and ?md5.0 = md5 and ?n1.0 = n1 and ?n2.0 = n2] assms
    by simp
next
  assume h: "length p < 10 \<and> utf8_encodable (dict_get a ''title'' (ustr ''unknown'') @ p) \<and>
          valid_datetime (now_date e1) \<and> valid_datetime (now_date e2) \<and>
          (dt_year (now_date e1), dt_month (now_date e1), dt_day (now_date e1)) \<noteq>
          (dt_year (now_date e2), dt_month (now_date e2), dt_day (now_date e2)) \<and>
          db_error e1 = None \<and> db_error e2 = None \<and>
          k1 = strftime_ymd (now_date e1) @ ustr ''/'' @
               take 8 (md5 (dict_get a ''title'' (ustr ''unknown'') @ p)) \<and>
          k2 = strftime_ymd (now_date e2) @ ustr ''/'' @
               take 8 (md5 (dict_get a ''title'' (ustr ''unknown'') @ p)) \<and>
          k1 \<notin> object_key ` set db \<and> k2 \<notin> object_key ` set db"
  let ?db1 = "snd (save_article md5 e1 a db)"
  from h have lp: "length p < 10"
    and enc: "utf8_encodable (dict_get a ''title'' (ustr ''unknown'') @ p)"
    and v1: "valid_datetime (now_date e1)" and v2: "valid_datetime (now_date e2)"
    and days: "(dt_year (now_date e1), dt_month (now_date e1), dt_day (now_date e1)) \<noteq>
          (dt_year (now_date e2), dt_month (now_date e2), dt_day (now_date e2))"
    and err1: "db_error e1 = None" and err2: "db_error e2 = None"
    and k1: "k1 = strftime_ymd (now_date e1) @ ustr ''/'' @
               take 8 (md5 (dict_get a ''title'' (ustr ''unknown'') @ p))"
    and k2: "k2 = strftime_ymd (now_date e2) @ ustr ''/'' @
               take 8 (md5 (dict_get a ''title'' (ustr ''unknown'') @ p))"
    and f1: "k1 \<notin> object_key ` set db" and f2: "k2 \<notin> object_key ` set db"
    by blast+
  have g1: "generate_object_key md5 (now_default e1) (now_date e1) a = Inr k1"
    unfolding k1 using assms lp enc by (rule generate_object_key_undated)
  have g2: "generate_object_key md5 (now_default e2) (now_date e2) a = Inr k2"
    unfolding k2 using assms lp enc by (rule generate_object_key_undated)
  have d: "strftime_ymd (now_date e1) \<noteq> strftime_ymd (now_date e2)"
    using days strftime_ymd_inj [OF v1 v2] by auto
  then have ne: "k1 \<noteq> k2" by (simp add: k1 k2)
  have t1: "take 10 k1 = strftime_ymd (now_date e1)"
    and t2: "take 10 k2 = strftime_ymd (now_date e2)"
    by (simp_all add: k1 k2 length_strftime_ymd)
  have s1: "fst (save_article md5 e1 a db) = True"
    by (rule save_article_fresh(1) [OF g1 err1 f1])
  have l1: "length ?db1 = Suc (length db)"
    by (rule save_article_fresh(3) [OF g1 err1 f1])
  have keys1: "object_key ` set ?db1 = insert k1 (object_key ` set db)"
    using g1 err1 f1
    by (simp add: save_article_def save_article_body_def insert_or_ignore_def)
  then have fresh2: "k2 \<notin> object_key ` set ?db1" using ne f2 by auto
  have s2: "fst (save_article md5 e2 a ?db1) = True"
    by (rule save_article_fresh(1) [OF g2 err2 fresh2])
  have l2: "length (snd (save_article md5 e2 a ?db1)) = Suc (length ?db1)"
    by (rule save_article_fresh(3) [OF g2 err2 fresh2])
  show "generate_object_key md5 (now_default e1) (now_date e1) a = Inr k1" by (rule g1)
  show "generate_object_key md5 (now_default e2) (now_date e2) a = Inr k2" by (rule g2)
  show "take 10 k1 = strftime_ymd (now_date e1)" by (rule t1)
  show "take 10 k2 = strftime_ymd (now_date e2)" by (rule t2)
  show "k1 \<noteq> k2" by (rule ne)
  show "fst (save_article md5 e1 a db) = True" by (rule s1)
  show "fst (save_article md5 e2 a ?db1) = True" by (rule s2)
  show "length (snd (save_article md5 e2 a ?db1)) = length db + 2" using l1 l2 by simp
qed

text \<open>Both parts at the example articles.\<close>

theorem object_key_depends_on_save_date_witness:
  "generate_object_key digest_stub (on_day 2026 11 3) (on_day 2026 11 3) dated_article =
     generate_object_key digest_stub (on_day 2027 1 9) (on_day 2027 1 9) dated_article
   \<and> generate_object_key digest_stub (on_day 2026 11 3) (on_day 2026 11 3) undated_article =
       Inr (ustr ''2026-11-03/01234567'')
   \<and> generate_object_key digest_stub (on_day 2026 11 4) (on_day 2026 11 4) undated_article =
       Inr (ustr ''2026-11-04/01234567'')
   \<and> fst (save_article digest_stub (save_on (on_day 2026 11 3)) undated_article []) = True
   \<and> fst (save_article digest_stub (save_on (on_day 2026 11 4)) undated_article
        (snd (save_article digest_stub (save_on (on_day 2026 11 3)) undated_article []))) = True
   \<and> length (snd (save_article digest_stub (save_on (on_day 2026 11 4)) undated_article
        (snd (save_article digest_stub (save_on (on_day 2026 11 3)) undated_article [])))) = 2"
proof -
  let ?e1 = "save_on (on_day 2026 11 3)" and ?e2 = "save_on (on_day 2026 11 4)"
  let ?k1 = "ustr ''2026-11-03/01234567''" and ?k2 = "ustr ''2026-11-04/01234567''"
  have p1: "dated_article ''publish_time'' = Some (ustr ''2024-05-01 08:30:00'')"
    by (simp add: dated_article_def)
  have len1: "10 \<le> length (ustr ''2024-05-01 08:30:00'')" by (simp add: ustr_def)
  have p2: "undated_article ''publish_time'' = Some []"
    by (simp add: undated_article_def)
  have h: "length ([]::pystr) < 10 \<and>
      utf8_encodable (dict_get undated_article ''title'' (ustr ''unknown'') @ []) \<and>
      valid_datetime (now_date ?e1) \<and> valid_datetime (now_date ?e2) \<and>
      (dt_year (now_date ?e1), dt_month (now_date ?e1), dt_day (now_date ?e1)) \<noteq>
      (dt_year (now_date ?e2), dt_month (now_date ?e2), dt_day (now_date ?e2)) \<and>
      db_error ?e1 = None \<and> db_error ?e2 = None \<and>
      ?k1 = strftime_ymd (now_date ?e1) @ ustr ''/'' @
            take 8 (digest_stub (dict_get undated_article ''title'' (ustr ''unknown'') @ [])) \<and>
      ?k2 = strftime_ymd (now_date ?e2) @ ustr ''/'' @
            take 8 (digest_stub (dict_get undated_article ''title'' (ustr ''unknown'') @ [])) \<and>
      ?k1 \<notin> object_key ` set [] \<and> ?k2 \<notin> object_key ` set []"
    by (simp add: store_eval valid_datetime_def)
  show ?thesis
    using object_key_depends_on_save_date [where a = dated_article
        and p = "ustr ''2024-05-01 08:30:00''" and ?md5.0 = digest_stub
        and ?n1.0 = "on_day 2026 11 3" and ?t1.0 = "on_day 2026 11 3"
        and ?n2.0 = "on_day 2027 1 9" and ?t2.0 = "on_day 2027 1 9"] p1 len1
      object_key_depends_on_save_date [where a = undated_article and p = "[]"
        and ?md5.0 = digest_stub and ?e1.0 = ?e1 and ?e2.0 = ?e2 and ?k1.0 = ?k1
        and ?k2.0 = ?k2 and db = "[]"] p2 h
    by (simp add: save_on_def)
qed

section \<open>Properties of the parser (claims C8 and C9)\<close>

lemma extract_summary_find:
  "extract_summary lib ps =
     (case find (summary_candidate lib) (map get_text_strip ps) of
        None \<Rightarrow> []
      | Some t \<Rightarrow> if 300 < length t then take 300 t @ ustr ''...'' else t)"
  by (induction ps) (simp_all add: Let_def)

lemma length_extract_summary: "length (extract_summary lib ps) \<le> 303"
  by (induction ps) (simp_all add: Let_def ustr_def)

lemma parse_item_Some:
  assumes "parse_item lib now item = Inr (Some a)"
  shows "title a = extract_title item" and "extract_title item \<noteq> []"
    and "summary a = extract_summary lib (sel_p item)"
  using assms
  by (auto simp: parse_item_def Let_def split: if_splits sum.splits)

lemma parse_item_None:
  assumes "parse_item lib now item = Inr None"
  shows "extract_title item = []"
  using assms
  by (auto simp: parse_item_def Let_def split: if_splits sum.splits)


lemma parse_loop_summaries:
  assumes "parse_loop lib clock i items = Inr articles"
  shows "map summary articles =
           map (\<lambda>item. extract_summary lib (sel_p item))
             (filter (\<lambda>item. extract_title item \<noteq> []) items)"
  using assms
proof (induction items arbitrary: i articles)
  case Nil
  then show ?case by simp
next
  case (Cons item items)
  from Cons.prems obtain r rest where r: "parse_item lib (clock i) item = Inr r"
    and rest: "parse_loop lib clock (Suc i) items = Inr rest"
    and arts: "articles = (case r of None \<Rightarrow> rest | Some a \<Rightarrow> a # rest)"
    by (auto split: sum.splits)
  note IH = Cons.IH [OF rest]
  show ?case
  proof (cases r)
    case None
    then show ?thesis using r arts IH parse_item_None by simp
  next
    case (Some a)
    then show ?thesis using r arts IH parse_item_Some [of lib "clock i" item a] by simp
  qed
qed

lemma parse_loop_returns:
  assumes "\<forall>digits. \<exists>t. fromtimestamp lib digits = Inr t"
  shows "\<exists>articles. parse_loop lib clock i items = Inr articles"
proof (induction items arbitrary: i)
  case Nil
  show ?case by simp
next
  case (Cons item items)
  have "\<exists>t. extract_publish_time lib item = Inr t"
    using assms
    by (auto simp: extract_publish_time_def split: option.splits sum.splits prod.splits)
      (metis sum.distinct(1) old.sum.exhaust)
  then have "\<exists>r. parse_item lib (clock i) item = Inr r"
    by (auto simp: parse_item_def Let_def)
  then show ?case using Cons.IH [of "Suc i"] by auto
qed

text \<open>Texts in which a pattern cannot match.\<close>

lemma rx_match_Lit_absent:
  "c \<notin> set s \<Longrightarrow> rx_match (Lit (c # l) # r) s = None"
  by (cases s) auto

lemma rx_match_Rep_absent:
  assumes "\<forall>x\<in>set s. \<not> cls x" and "1 \<le> lo"
  shows "rx_match (Rep cls lo hi # r) s = None"
proof -
  have "takeWhile cls s = []" using assms(1) by (cases s) simp_all
  then show ?thesis using assms(2) by (simp add: Let_def split: option.splits)
qed

lemma rx_search_none_suffixes:
  assumes "\<And>t. set t \<subseteq> set s \<Longrightarrow> rx_match p t = None"
  shows "rx_search p s = None"
  using assms
proof (induction s)
  case Nil
  then show ?case by simp
next
  case (Cons c s)
  have "rx_match p (c # s) = None" using Cons.prems [of "c # s"] by simp
  moreover have "rx_search p s = None"
    using Cons.IH Cons.prems by (metis set_subset_Cons subset_trans)
  ultimately show ?case by simp
qed

lemma summary_candidate_letters:
  assumes "set t \<subseteq> {97}" and "20 < length t"
  shows "summary_candidate (ascii_lib items) t"
proof -
  have nd: "\<forall>x\<in>set u. \<not> unicode_decimal (ascii_lib items) x" if "set u \<subseteq> set t" for u
    using that assms(1) by (auto simp: ascii_lib_def)
  have na: "c \<notin> set u" if "set u \<subseteq> set t" and "c \<noteq> 97" for u c
    using that assms(1) by auto
  have d: "rx_search (date_pattern (ascii_lib items)) t = None"
    by (rule rx_search_none_suffixes)
      (simp add: date_pattern_def rx_match_Rep_absent nd del: rx_match.simps)
  have r1: "rx_search [Lit [20170, 26085]] t = None"
    by (rule rx_search_none_suffixes) (simp add: rx_match_Lit_absent na del: rx_match.simps)
  have r2: "rx_search [Lit [26152, 26085]] t = None"
    by (rule rx_search_none_suffixes) (simp add: rx_match_Lit_absent na del: rx_match.simps)
  have r3: "rx_search [Rep (unicode_decimal (ascii_lib items)) 1 None,
      Lit [23567, 26102, 21069]] t = None"
    by (rule rx_search_none_suffixes) (simp add: rx_match_Rep_absent nd del: rx_match.simps)
  have r4: "rx_search [Rep (unicode_decimal (ascii_lib items)) 1 None,
      Lit [20998, 38047, 21069]] t = None"
    by (rule rx_search_none_suffixes) (simp add: rx_match_Rep_absent nd del: rx_match.simps)
  have pn: "\<not> sublist platform_name t"
  proof
    assume "sublist platform_name t"
    then have "set platform_name \<subseteq> set t" by (rule set_mono_sublist)
    then show False using assms(1) by (auto simp: platform_name_def)
  qed
  show ?thesis
    using d r1 r2 r3 r4 pn assms(2)
    by (simp add: summary_candidate_def rx_found_def relative_time_patterns_def)
qed

text \<open>
  Claim C8, as the code has it. For every record the parser returns, the summary has at
  most 303 characters. It is taken from the first paragraph of the item that passes the
  filter: the paragraph's text itself when that has at most 300 characters, its first 300
  characters followed by \<open>...\<close> when it is longer, and the empty string when no
  paragraph passes.
\<close>

theorem summary_at_most_303:
  assumes "parse_search_results lib clock html_content = Inr articles"
  shows "(\<forall>a\<in>set articles. length (summary a) \<le> 303) \<and>
         map summary articles =
           map (\<lambda>item.
                  case find (summary_candidate lib) (map get_text_strip (sel_p item)) of
                    None \<Rightarrow> []
                  | Some t \<Rightarrow> if 300 < length t then take 300 t @ ustr ''...'' else t)
             (filter (\<lambda>item. extract_title item \<noteq> []) (select_news_items lib html_content))"
proof -
  let ?items = "filter (\<lambda>item. extract_title item \<noteq> []) (select_news_items lib html_content)"
  have m: "map summary articles = map (\<lambda>item. extract_summary lib (sel_p item)) ?items"
    using assms parse_loop_summaries by (simp add: parse_search_results_def)
  have "\<forall>s\<in>set (map summary articles). length s \<le> 303"
    unfolding m using length_extract_summary by auto
  then have "\<forall>a\<in>set articles. length (summary a) \<le> 303" by simp
  then show ?thesis using m by (simp add: extract_summary_find)
qed


lemma parse_long_paragraph:
  "parse_search_results (ascii_lib [plain_item (ustr ''T'') [replicate 301 97]])
       (\<lambda>i. on_day 2026 11 3) [] =
     Inr [WeChatArticle \<lparr> title := ustr ''T'',
            summary := replicate 300 97 @ ustr ''...'',
            crawl_time := strftime_full (on_day 2026 11 3) \<rparr>]"
proof -
  let ?item = "plain_item (ustr ''T'') [replicate 301 97]"
  let ?lib = "ascii_lib [?item]"
  have st: "py_strip (replicate 301 97) = replicate 301 97"
    by (simp add: py_strip_def py_isspace_def dropWhile_replicate)
  have c: "summary_candidate (ascii_lib items) (replicate 301 97)" for items
    by (rule summary_candidate_letters) simp_all
  have s: "extract_summary ?lib (sel_p ?item) = replicate 300 97 @ ustr ''...''"
    by (simp add: plain_item_def get_text_strip_def text_element_def st c Let_def)
  have t: "extract_title ?item = ustr ''T''"
    by (simp add: extract_title_def plain_item_def text_element_def get_text_strip_def
        py_strip_def py_isspace_def ustr_def)
  have ne: "ustr ''T'' \<noteq> []" by (simp add: ustr_def)
  have u: "extract_sogou_url ?item = []"
    by (simp add: extract_sogou_url_def plain_item_def text_element_def)
  have so: "extract_source ?item = []"
    by (simp add: extract_source_def plain_item_def)
  have pt: "extract_publish_time ?lib ?item = Inr []"
    by (simp add: extract_publish_time_def plain_item_def)
  have pi: "parse_item ?lib (on_day 2026 11 3) ?item =
      Inr (Some (WeChatArticle \<lparr> title := ustr ''T'',
            summary := replicate 300 97 @ ustr ''...'',
            crawl_time := strftime_full (on_day 2026 11 3) \<rparr>))"
    by (simp add: parse_item_def Let_def s t ne u so pt WeChatArticle_def)
  have sel: "select_news_items ?lib [] = [?item]" by (simp add: ascii_lib_def)
  show ?thesis
    by (simp add: parse_search_results_def sel pi)
qed

text \<open>
  The theorem at a page with one item whose only paragraph has 301 characters.
\<close>

theorem summary_at_most_303_witness:
  "length (summary (WeChatArticle \<lparr> title := ustr ''T'',
            summary := replicate 300 97 @ ustr ''...'',
            crawl_time := strftime_full (on_day 2026 11 3) \<rparr>)) \<le> 303"
  using summary_at_most_303 [OF parse_long_paragraph] by simp

text \<open>
  Claim C8 as stated bounds the summary by 300 characters. On that page the parser
  returns one record, and its summary has 303 characters.
\<close>

theorem summary_300_counterexample:
  "map (\<lambda>a. length (summary a))
     (projr (parse_search_results (ascii_lib [plain_item (ustr ''T'') [replicate 301 97]])
        (\<lambda>i. on_day 2026 11 3) [])) = [303]
   \<and> \<not> isl (parse_search_results (ascii_lib [plain_item (ustr ''T'') [replicate 301 97]])
        (\<lambda>i. on_day 2026 11 3) [])"
  unfolding parse_long_paragraph by (simp add: ustr_def)




section \<open>Properties of login (claim C7)\<close>

lemma poll_login_effect:
  assumes "poll_login w rounds st = (r, st')"
  shows "\<exists>k\<le>length rounds. st' = st \<lparr> pauses := pauses st @ replicate k (Fixed 1),
            ticks := ticks st' \<rparr> \<and> (r = Inr False \<longrightarrow> k = length rounds)"
  using assms
proof (induction rounds arbitrary: st)
  case Nil
  then show ?case by auto
next
  case (Cons i rounds)
  show ?case
  proof (cases "context_cookies w (ticks st)")
    case (Inl x)
    then have "st' = tick st" and "r = Inl x" using Cons.prems by auto
    then show ?thesis by (intro exI [of _ 0]) (simp add: tick_def)
  next
    case (Inr cookies)
    show ?thesis
    proof (cases "filter (is_login_cookie w) cookies \<noteq> []")
      case True
      then have "st' = tick st" and "r = Inr True" using Cons.prems Inr by auto
      then show ?thesis by (intro exI [of _ 0]) (simp add: tick_def)
    next
      case False
      show ?thesis
      proof (cases "login_button_visible w (ticks (tick st)) = Inr False")
        case True
        then have "st' = tick (tick st)" and "r = Inr True"
          using Cons.prems Inr False by auto
        then show ?thesis by (intro exI [of _ 0]) (simp add: tick_def)
      next
        case nv: False
        let ?s = "sleep (Fixed 1) (tick (tick st))"
        have "poll_login w rounds ?s = (r, st')"
          using Cons.prems Inr False nv
          by (auto split: sum.splits bool.splits)
        from Cons.IH [OF this] obtain k where k: "k \<le> length rounds"
          "st' = ?s \<lparr> pauses := pauses ?s @ replicate k (Fixed 1), ticks := ticks st' \<rparr>"
          "r = Inr False \<longrightarrow> k = length rounds" by blast
        have "st' = st \<lparr> pauses := pauses st @ replicate (Suc k) (Fixed 1),
            ticks := ticks st' \<rparr>"
          using k(2) by (simp add: sleep_def tick_def replicate_app_Cons_same)
        then show ?thesis using k(1,3) by (intro exI [of _ "Suc k"]) simp
      qed
    qed
  qed
qed













section \<open>Properties of the batch runners (claim C6)\<close>

lemma pool_order_distinct: "distinct (pool_order sched n)"
  by (auto simp: pool_order_def)

lemma pool_order_set: "set (pool_order sched n) = {0..<n}"
  by (auto simp: pool_order_def)

lemma run_pool_results:
  assumes "run_pool worker order items results st = (results', st')"
    and "distinct order" and "\<forall>i\<in>set order. i < length results"
  shows "length results' = length results \<and>
         (\<forall>i<length results.
            (i \<in> set order \<longrightarrow> (\<exists>s. results' ! i = fst (worker (items ! i) s))) \<and>
            (i \<notin> set order \<longrightarrow> results' ! i = results ! i))"
  using assms
proof (induction order arbitrary: results st)
  case Nil
  then show ?case by simp
next
  case (Cons j order)
  obtain r s1 where w: "worker (items ! j) st = (r, s1)" by (cases "worker (items ! j) st")
  have run: "run_pool worker order items (results[j := r]) s1 = (results', st')"
    using Cons.prems(1) w by simp
  have d: "distinct order" and jn: "j \<notin> set order" and jl: "j < length results"
    using Cons.prems(2,3) by auto
  have b: "\<forall>i\<in>set order. i < length (results[j := r])" using Cons.prems(3) by simp
  note IH = Cons.IH [OF run d b]
  have len: "length results' = length results" using IH by simp
  have "(i \<in> set (j # order) \<longrightarrow> (\<exists>s. results' ! i = fst (worker (items ! i) s))) \<and>
        (i \<notin> set (j # order) \<longrightarrow> results' ! i = results ! i)"
    if i: "i < length results" for i
  proof (cases "i \<in> set order")
    case True
    then show ?thesis using IH i by auto
  next
    case False
    then have keep: "results' ! i = (results[j := r]) ! i" using IH i by simp
    show ?thesis
    proof (cases "i = j")
      case True
      then have "results' ! i = fst (worker (items ! i) st)" using keep jl w by simp
      then show ?thesis using True by auto
    next
      case ne: False
      then show ?thesis using keep False by simp
    qed
  qed
  then show ?case using len by blast
qed

lemma collect_results_map_Inr: "collect_results (map Inr xs) = Inr xs"
  by (induction xs) simp_all

lemma collect_results_Inr_D:
  "collect_results rs = Inr xs \<Longrightarrow> rs = map Inr xs"
proof (induction rs arbitrary: xs)
  case Nil
  then show ?case by simp
next
  case (Cons r rs)
  show ?case
  proof (cases r)
    case (Inl x)
    then show ?thesis using Cons.prems by simp
  next
    case (Inr a)
    then obtain ys where ys: "collect_results rs = Inr ys" and xs: "xs = a # ys"
      using Cons.prems by (auto split: sum.splits)
    then show ?thesis using Cons.IH [OF ys] Inr by simp
  qed
qed

lemma collect_results_Inr:
  "collect_results rs = Inr xs \<longleftrightarrow> rs = map Inr xs"
  using collect_results_Inr_D collect_results_map_Inr by blast

lemma collect_results_Inl:
  "collect_results rs = Inl x \<Longrightarrow> Inl x \<in> set rs"
proof (induction rs)
  case Nil
  then show ?case by simp
next
  case (Cons r rs)
  then show ?case by (cases r) (auto split: sum.splits)
qed

lemma collect_results_total:
  "\<forall>r\<in>set rs. \<not> isl r \<Longrightarrow> \<exists>xs. collect_results rs = Inr xs"
proof (induction rs)
  case Nil
  show ?case by simp
next
  case (Cons r rs)
  then show ?case by (cases r) auto
qed

lemma executor_map_results:
  assumes "executor_map worker sched items st = (res, st')"
  shows "\<exists>results. res = collect_results results \<and> length results = length items \<and>
           (\<forall>i<length items. \<exists>s. results ! i = fst (worker (items ! i) s))"
proof -
  obtain results where run: "run_pool worker (pool_order sched (length items)) items
      (map Inr items) st = (results, st')" and res: "res = collect_results results"
    using assms by (auto simp: executor_map_def Let_def split: prod.splits)
  have b: "\<forall>i\<in>set (pool_order sched (length items)). i < length (map Inr items)"
    by (simp add: pool_order_set)
  from run_pool_results [OF run pool_order_distinct b]
  have "length results = length items"
    and "\<forall>i<length items. \<exists>s. results ! i = fst (worker (items ! i) s)"
    by (simp_all add: pool_order_set)
  then show ?thesis using res by blast
qed

lemma executor_map_Inr:
  assumes "executor_map worker sched items st = (Inr out, st')"
  shows "length out = length items"
    and "\<forall>i<length items. \<exists>s. fst (worker (items ! i) s) = Inr (out ! i)"
proof -
  from executor_map_results [OF assms] obtain results where
    c: "Inr out = collect_results results" and l: "length results = length items"
    and e: "\<forall>i<length items. \<exists>s. results ! i = fst (worker (items ! i) s)" by blast
  have m: "results = map Inr out" using c collect_results_Inr [of results out] by simp
  show "length out = length items" using l m by simp
  show "\<forall>i<length items. \<exists>s. fst (worker (items ! i) s) = Inr (out ! i)"
  proof (intro allI impI)
    fix i assume i: "i < length items"
    then obtain s where "results ! i = fst (worker (items ! i) s)" using e by blast
    moreover have "results ! i = Inr (out ! i)" using m i l by simp
    ultimately show "\<exists>s. fst (worker (items ! i) s) = Inr (out ! i)" by metis
  qed
qed

lemma executor_map_total:
  assumes "\<And>a s. \<not> isl (fst (worker a s))"
  shows "\<exists>out. fst (executor_map worker sched items st) = Inr out"
proof -
  obtain res st' where e: "executor_map worker sched items st = (res, st')"
    by (cases "executor_map worker sched items st")
  from executor_map_results [OF e] obtain results where
    c: "res = collect_results results" and l: "length results = length items"
    and r: "\<forall>i<length items. \<exists>s. results ! i = fst (worker (items ! i) s)" by blast
  have "\<forall>x\<in>set results. \<not> isl x"
  proof
    fix x assume "x \<in> set results"
    then obtain i where "i < length results" "x = results ! i" by (auto simp: in_set_conv_nth)
    then show "\<not> isl x" using r l assms by (metis)
  qed
  from collect_results_total [OF this] show ?thesis using c e by simp
qed




lemma process_article_fields:
  assumes "fst (process_article w a s) = Inr a'"
  shows "a' = a \<lparr> real_url := real_url a', success := success a' \<rparr>"
  using assms
  by (auto simp: process_article_def split: if_splits prod.splits sum.splits option.splits)



lemma fetch_content_total: "\<not> isl (fst (fetch_content w a s))"
  by (simp add: fetch_content_def Let_def split: prod.splits)

lemma fetch_content_fields:
  assumes "fst (fetch_content w a s) = Inr a'"
  shows "a' = a \<lparr> content := content a', address := address a',
                   content_fetched := content_fetched a' \<rparr>"
    and "\<not> is_valid a \<Longrightarrow> a' = a"
    and "real_url a' = real_url a" and "success a' = success a"
  using assms
  by (auto simp: fetch_content_def is_valid_def Let_def split: if_splits prod.splits)


lemma merge_valid_index:
  assumes "length ps = length (filter is_valid articles)"
    and "\<forall>k<length ps. Q (filter is_valid articles ! k) (ps ! k)"
  shows "length (merge_valid articles ps) = length articles \<and>
         (\<forall>i<length articles.
            if is_valid (articles ! i) then Q (articles ! i) (merge_valid articles ps ! i)
            else merge_valid articles ps ! i = articles ! i)"
  using assms
proof (induction articles arbitrary: ps)
  case Nil
  then show ?case by simp
next
  case (Cons a articles)
  show ?case
  proof (cases "is_valid a")
    case False
    then have l: "length ps = length (filter is_valid articles)"
      and q: "\<forall>k<length ps. Q (filter is_valid articles ! k) (ps ! k)"
      using Cons.prems by simp_all
    note IH = Cons.IH [OF l q]
    have m: "merge_valid (a # articles) ps = a # merge_valid articles ps" using False by simp
    show ?thesis
      unfolding m using IH False by (auto simp: nth_Cons split: nat.splits)
  next
    case True
    then obtain p ps' where ps: "ps = p # ps'" using Cons.prems(1) by (cases ps) auto
    have l: "length ps' = length (filter is_valid articles)"
      using Cons.prems(1) True ps by simp
    have q: "\<forall>k<length ps'. Q (filter is_valid articles ! k) (ps' ! k)"
    proof (intro allI impI)
      fix k assume "k < length ps'"
      then have "Suc k < length ps" using ps by simp
      then have "Q (filter is_valid (a # articles) ! Suc k) (ps ! Suc k)"
        using Cons.prems(2) by blast
      then show "Q (filter is_valid articles ! k) (ps' ! k)" using True ps by simp
    qed
    have q0: "Q a p"
      using Cons.prems(2) [rule_format, of 0] True ps by simp
    note IH = Cons.IH [OF l q]
    have m: "merge_valid (a # articles) ps = p # merge_valid articles ps'"
      using True ps by simp
    show ?thesis
      unfolding m using IH True q0 by (auto simp: nth_Cons split: nat.splits)
  qed
qed

lemma get_real_urls_batch_Inr:
  assumes "get_real_urls_batch w articles st = (Inr out, st')"
  shows "length out = length articles"
    and "\<forall>i<length articles.
           (\<exists>s. fst (process_article w (articles ! i) s) = Inr (out ! i)) \<and>
           out ! i = (articles ! i) \<lparr> real_url := real_url (out ! i), success := success (out ! i) \<rparr>"
proof -
  have e: "executor_map (process_article w) (pool_schedule w (ticks st)) articles (tick st) =
      (Inr out, st')" using assms by (simp add: get_real_urls_batch_def)
  show "length out = length articles" by (rule executor_map_Inr(1) [OF e])
  show "\<forall>i<length articles.
           (\<exists>s. fst (process_article w (articles ! i) s) = Inr (out ! i)) \<and>
           out ! i = (articles ! i) \<lparr> real_url := real_url (out ! i), success := success (out ! i) \<rparr>"
    using executor_map_Inr(2) [OF e] process_article_fields by blast
qed

lemma fetch_contents_batch_Inr:
  "\<exists>out. fst (fetch_contents_batch w articles st) = Inr out \<and>
     length out = length articles \<and>
     (\<forall>i<length articles.
        if is_valid (articles ! i)
        then \<exists>s. fst (fetch_content w (articles ! i) s) = Inr (out ! i)
        else out ! i = articles ! i)"
proof (cases "filter is_valid articles = []")
  case True
  have "\<not> is_valid (articles ! i)" if "i < length articles" for i
    using True that by (metis filter_empty_conv nth_mem)
  then show ?thesis using True by (simp add: fetch_contents_batch_def)
next
  case False
  let ?valid = "filter is_valid articles"
  obtain res st' where e: "executor_map (fetch_content w) (pool_schedule w (ticks st))
      ?valid (tick st) = (res, st')"
    by (cases "executor_map (fetch_content w) (pool_schedule w (ticks st)) ?valid (tick st)")
  obtain ps where ps: "res = Inr ps"
    using executor_map_total [of "fetch_content w" "pool_schedule w (ticks st)" ?valid "tick st"]
      fetch_content_total e by auto
  have f: "fst (fetch_contents_batch w articles st) = Inr (merge_valid articles ps)"
    using False e ps by (simp add: fetch_contents_batch_def)
  have l: "length ps = length ?valid"
    and q: "\<forall>k<length ?valid. \<exists>s. fst (fetch_content w (?valid ! k) s) = Inr (ps ! k)"
    using executor_map_Inr [OF e [unfolded ps]] by simp_all
  have q': "\<forall>k<length ps. \<exists>s. fst (fetch_content w (?valid ! k) s) = Inr (ps ! k)"
    using q l by simp
  from merge_valid_index [where Q = "\<lambda>a p. \<exists>s. fst (fetch_content w a s) = Inr p", OF l q']
  show ?thesis using f by auto
qed



lemmas batch_eval = get_real_urls_batch_def fetch_contents_batch_def executor_map_def
  pool_order_def process_article_def fetch_content_def get_real_wechat_url_def
  fetch_article_content_def raise_for_status_def save_article_to_storage_def is_valid_def
  broken_world_def quiet_world_def new_crawler_def listed_def resolved_def WeChatArticle_def
  tick_def sleep_def Let_def

lemma resolve_good_page:
  "extract_real_url (url_stmt (ustr ''https://a/s?x'')) = Some (ustr ''https://a/s?x'')"
  by (simp add: rx_eval url_stmt_def)

lemma example_urls:
  "ustr ''good'' \<noteq> ustr ''bad''" "ustr ''bad'' \<noteq> []" "ustr ''good'' \<noteq> []"
  "ustr ''https://a/s?x'' \<noteq> []" "ustr ''https://a/s?x'' \<noteq> ustr ''bad''"
  by (simp_all add: ustr_def)





section \<open>What the pipeline hands to the store (claim C4)\<close>

lemma hands_fetched_only_iff:
  "hands_fetched_only s s' \<longleftrightarrow>
     (\<exists>new. handed s' = handed s @ new \<and> list_all persistable new)"
  by (auto simp: hands_fetched_only_def handed_since_def prefix_def)

lemma hands_same: "handed s' = handed s \<Longrightarrow> hands_fetched_only s s'"
  by (simp add: hands_fetched_only_iff)

lemma hands_trans:
  "hands_fetched_only a b \<Longrightarrow> hands_fetched_only b c \<Longrightarrow> hands_fetched_only a c"
  by (auto simp: hands_fetched_only_iff)

lemma handed_init_playwright: "handed (snd (init_playwright w st)) = handed st"
  by (simp add: init_playwright_def tick_def split: option.splits)

lemma handed_poll_login: "handed (snd (poll_login w rounds st)) = handed st"
proof -
  obtain r st' where p: "poll_login w rounds st = (r, st')" by (cases "poll_login w rounds st")
  from poll_login_effect [OF p] obtain k where
    "st' = st \<lparr> pauses := pauses st @ replicate k (Fixed 1), ticks := ticks st' \<rparr>" by blast
  then have "handed st' = handed (st \<lparr> pauses := pauses st @ replicate k (Fixed 1),
      ticks := ticks st' \<rparr>)" by simp
  then have "handed st' = handed st" by simp
  then show ?thesis using p by simp
qed

lemma handed_finish_login: "handed (snd (finish_login w b st)) = handed st"
  by (auto simp: finish_login_def save_login_cookies_def tick_def Let_def
      split: sum.splits option.splits)

lemma handed_login_try_block: "handed (snd (login_try_block w st)) = handed st"
proof (cases "open_login_page w (ticks st)")
  case (Some x)
  then show ?thesis by (simp add: login_try_block_def tick_def)
next
  case None
  obtain r st' where p: "poll_login w [0..<60] (tick st) = (r, st')"
    by (cases "poll_login w [0..<60] (tick st)")
  have h: "handed st' = handed st"
    using handed_poll_login [of w "[0..<60]" "tick st"] p by (simp add: tick_def)
  show ?thesis
    using None p h handed_finish_login [of w _ st']
    by (cases r) (simp_all add: login_try_block_def)
qed

lemma handed_login: "handed (snd (login w force_login st)) = handed st"
proof -
  obtain r st0 where i: "init_playwright w st = (r, st0)" by (cases "init_playwright w st")
  have h0: "handed st0 = handed st" using handed_init_playwright [of w st] i by simp
  have "handed (snd (playwright_login w st)) = handed st"
    using i h0 handed_login_try_block [of w st0]
    by (auto simp: playwright_login_def split: sum.splits prod.splits)
  then show ?thesis by (simp add: login_def)
qed

lemma handed_get_real_wechat_url: "handed (snd (get_real_wechat_url w url st)) = handed st"
  by (simp add: get_real_wechat_url_def tick_def split: sum.splits pyexc.splits option.splits)

lemma handed_process_article: "handed (snd (process_article w a st)) = handed st"
  using handed_get_real_wechat_url [of w "sogou_url a" st]
  by (auto simp: process_article_def sleep_def split: prod.splits sum.splits option.splits)

lemma handed_fetch_article_content:
  "handed (snd (fetch_article_content w url st)) = handed st"
  by (simp add: fetch_article_content_def tick_def case_prod_unfold Let_def
      split: sum.splits option.splits)

lemma handed_search_articles: "handed (snd (search_articles w query page st)) = handed st"
proof -
  have "handed (snd (search_try_block w query page st)) = handed st"
    by (simp add: search_try_block_def tick_def sleep_def Let_def
        split: sum.splits option.splits)
  then show ?thesis
    by (auto simp: search_articles_def split: prod.splits sum.splits pyexc.splits)
qed

lemma handed_clear_session: "handed (snd (clear_session w st)) = handed st"
  by (simp add: clear_session_def tick_def Let_def split: option.splits)

lemma handed_load_wechat_accounts: "handed (snd (load_wechat_accounts w st)) = handed st"
  by (simp add: load_wechat_accounts_def tick_def split: option.splits sum.splits)

lemma hands_fetch_content: "hands_fetched_only st (snd (fetch_content w a st))"
proof (cases "real_url a \<noteq> [] \<and> success a")
  case False
  then show ?thesis by (auto simp: fetch_content_def intro: hands_same)
next
  case True
  obtain c ad ok st1 where f: "fetch_article_content w (real_url a) st = ((c, ad, ok), st1)"
    by (cases "fetch_article_content w (real_url a) st") auto
  have h1: "handed st1 = handed st"
    using handed_fetch_article_content [of w "real_url a" st] f by simp
  let ?a = "a \<lparr> content := c, address := ad, content_fetched := ok \<rparr>"
  show ?thesis
  proof (cases ok)
    case False
    then have "handed (snd (fetch_content w a st)) = handed st"
      using True f h1 by (simp add: fetch_content_def sleep_def Let_def)
    then show ?thesis by (rule hands_same)
  next
    case ok: True
    have "handed (snd (fetch_content w a st)) = handed st @ [?a]"
      using True f h1 ok
      by (simp add: fetch_content_def sleep_def save_article_to_storage_def tick_def
          case_prod_unfold Let_def)
    moreover have "persistable ?a" using True ok by (simp add: persistable_def)
    ultimately show ?thesis by (simp add: hands_fetched_only_iff)
  qed
qed

lemma run_pool_state:
  assumes step: "\<And>a s. R s (snd (worker a s))"
    and refl: "\<And>s. R s s"
    and trans: "\<And>a b c. R a b \<Longrightarrow> R b c \<Longrightarrow> R a c"
  shows "R st (snd (run_pool worker order items results st))"
proof (induction order arbitrary: results st)
  case Nil
  show ?case by (simp add: refl)
next
  case (Cons i order)
  obtain r s1 where w: "worker (items ! i) st = (r, s1)" by (cases "worker (items ! i) st")
  have "R st s1" using step [of st "items ! i"] w by simp
  moreover have "R s1 (snd (run_pool worker order items (results[i := r]) s1))"
    by (rule Cons.IH)
  ultimately show ?case using w trans by auto
qed

lemma executor_map_state:
  assumes step: "\<And>a s. R s (snd (worker a s))" and refl: "\<And>s. R s s"
    and trans: "\<And>a b c. R a b \<Longrightarrow> R b c \<Longrightarrow> R a c"
  shows "R st (snd (executor_map worker sched items st))"
proof -
  have "R st (snd (run_pool worker (pool_order sched (length items)) items (map Inr items) st))"
    by (rule run_pool_state) (fact step refl trans)+
  then show ?thesis by (simp add: executor_map_def case_prod_unfold Let_def)
qed

lemma hands_get_real_urls_batch:
  "handed (snd (get_real_urls_batch w articles st)) = handed st"
proof -
  have "handed (snd (executor_map (process_article w) sched articles s)) = handed s" for sched s
    by (rule executor_map_state [where R = "\<lambda>s s'. handed s' = handed s"])
      (simp_all add: handed_process_article)
  then show ?thesis by (simp add: get_real_urls_batch_def tick_def)
qed

lemma hands_fetch_contents_batch:
  "hands_fetched_only st (snd (fetch_contents_batch w articles st))"
proof (cases "filter is_valid articles = []")
  case True
  then show ?thesis by (simp add: fetch_contents_batch_def hands_same)
next
  case False
  let ?e = "executor_map (fetch_content w) (pool_schedule w (ticks st))
      (filter is_valid articles) (tick st)"
  have "hands_fetched_only (tick st) (snd ?e)"
  proof (rule executor_map_state [where R = hands_fetched_only])
    show "hands_fetched_only s (snd (fetch_content w a s))" for a s
      by (rule hands_fetch_content)
    show "hands_fetched_only s s" for s by (simp add: hands_same)
    show "hands_fetched_only a b \<Longrightarrow> hands_fetched_only b c \<Longrightarrow> hands_fetched_only a c"
      for a b c by (rule hands_trans)
  qed
  moreover have "hands_fetched_only st (tick st)" by (simp add: hands_same tick_def)
  ultimately have "hands_fetched_only st (snd ?e)" by (rule hands_trans [rotated])
  moreover have "snd (fetch_contents_batch w articles st) = snd ?e"
    using False by (simp add: fetch_contents_batch_def split: prod.splits sum.splits)
  ultimately show ?thesis by simp
qed


lemma handed_recover_session:
  "handed (snd (recover_session w query page st)) = handed st"
proof -
  obtain r1 s1 where c: "clear_session w (sleep (Fixed 60) st) = (r1, s1)"
    by (cases "clear_session w (sleep (Fixed 60) st)")
  have h1: "handed s1 = handed st"
    using handed_clear_session [of w "sleep (Fixed 60) st"] c by (simp add: sleep_def)
  obtain r2 s2 where l: "login w True s1 = (r2, s2)" by (cases "login w True s1")
  have h2: "handed s2 = handed st" using handed_login [of w True s1] l h1 by simp
  obtain r3 s3 where se: "search_articles w query page s2 = (r3, s3)"
    by (cases "search_articles w query page s2")
  have h3: "handed s3 = handed st" using handed_search_articles [of w query page s2] se h2 by simp
  show ?thesis
    using c l se h1 h2 h3
    by (auto simp: recover_session_def split: sum.splits bool.splits)
qed

lemma hands_resolve_and_fetch:
  "hands_fetched_only st (snd (resolve_and_fetch w g f articles st))"
proof -
  obtain r1 s1 where a: "(if g then get_real_urls_batch w articles st else (Inr articles, st)) =
      (r1, s1)" by (cases "if g then get_real_urls_batch w articles st else (Inr articles, st)")
  have h1: "handed s1 = handed st"
    using a hands_get_real_urls_batch [of w articles st] by (auto split: if_splits)
  show ?thesis
  proof (cases r1)
    case (Inl x)
    then show ?thesis using a h1 by (simp add: resolve_and_fetch_def hands_same)
  next
    case (Inr resolved_articles)
    obtain r2 s2 where b: "(if f \<and> g then fetch_contents_batch w resolved_articles s1
        else (Inr resolved_articles, s1)) = (r2, s2)"
      by (cases "if f \<and> g then fetch_contents_batch w resolved_articles s1
        else (Inr resolved_articles, s1)")
    have "hands_fetched_only s1 s2"
      using b hands_fetch_contents_batch [of s1 w resolved_articles]
      by (auto simp: hands_same split: if_splits)
    then have h2: "hands_fetched_only st s2"
      using hands_trans [OF hands_same [OF h1]] by blast
    have "snd (resolve_and_fetch w g f articles st) = s2"
      using a Inr b by (cases r2) (simp_all add: resolve_and_fetch_def Let_def)
    then show ?thesis using h2 by simp
  qed
qed

lemma hands_crawl_try_block:
  "hands_fetched_only st (snd (crawl_try_block w query page g f st))"
proof -
  obtain r1 s1 where l: "(if \<not> is_logged_in st then login w False st else (Inr True, st)) =
      (r1, s1)" by (cases "if \<not> is_logged_in st then login w False st else (Inr True, st)")
  have h1: "handed s1 = handed st" using l handed_login [of w False st] by (auto split: if_splits)
  obtain r2 s2 where se: "search_articles w query page s1 = (r2, s2)"
    by (cases "search_articles w query page s1")
  have h2: "handed s2 = handed st" using handed_search_articles [of w query page s1] se h1 by simp
  obtain r3 s3 where rc: "recover_session w query page s2 = (r3, s3)"
    by (cases "recover_session w query page s2")
  have h3: "handed s3 = handed st" using handed_recover_session [of w query page s2] rc h2 by simp
  have k2: "hands_fetched_only st (snd (resolve_and_fetch w g f as s2))" for as
    using hands_trans [OF hands_same [OF h2] hands_resolve_and_fetch] .
  have k3: "hands_fetched_only st (snd (resolve_and_fetch w g f as s3))" for as
    using hands_trans [OF hands_same [OF h3] hands_resolve_and_fetch] .
  show ?thesis
    using l se rc h1 h2 h3 k2 k3
    by (auto simp: crawl_try_block_def hands_same split: sum.splits bool.splits)
qed

lemma hands_crawl_and_extract:
  "hands_fetched_only st (snd (crawl_and_extract w query page g f st))"
  using hands_crawl_try_block [of st w query page g f]
  by (auto simp: crawl_and_extract_def split: prod.splits sum.splits abort.splits)

lemma unfetched_parse_loop:
  assumes "parse_loop lib clock i items = Inr articles"
  shows "\<forall>a\<in>set articles. \<not> content_fetched a"
  using assms
proof (induction items arbitrary: i articles)
  case Nil
  then show ?case by simp
next
  case (Cons item items)
  from Cons.prems obtain r rest where r: "parse_item lib (clock i) item = Inr r"
    and rest: "parse_loop lib clock (Suc i) items = Inr rest"
    and arts: "articles = (case r of None \<Rightarrow> rest | Some a \<Rightarrow> a # rest)"
    by (auto split: sum.splits)
  have "\<not> content_fetched a" if "r = Some a" for a
    using r that
    by (auto simp: parse_item_def WeChatArticle_def Let_def split: if_splits sum.splits)
  then show ?case using Cons.IH [OF rest] arts by (cases r) auto
qed

lemma unfetched_search_articles:
  assumes "search_articles w query page st = (Inr articles, st')"
  shows "\<forall>a\<in>set articles. \<not> content_fetched a"
proof -
  have "\<forall>a\<in>set as. \<not> content_fetched a"
    if "fst (search_try_block w query page st) = Inr as" for as
    using that unfetched_parse_loop
    by (auto simp: search_try_block_def parse_search_results_def Let_def
        split: sum.splits option.splits)
  then show ?thesis
    using assms
    by (auto simp: search_articles_def split: prod.splits sum.splits pyexc.splits)
qed

lemma unfetched_recover_session:
  assumes "recover_session w query page st = (Inr (Inr articles), st')"
  shows "\<forall>a\<in>set articles. \<not> content_fetched a"
  using assms unfetched_search_articles
  by (auto simp: recover_session_def split: prod.splits sum.splits bool.splits if_splits)

lemma unfetched_get_real_urls_batch:
  assumes "get_real_urls_batch w articles st = (Inr out, st')"
    and "\<forall>a\<in>set articles. \<not> content_fetched a"
  shows "\<forall>a\<in>set out. \<not> content_fetched a"
proof
  fix a assume "a \<in> set out"
  then obtain i where i: "i < length out" "a = out ! i" by (auto simp: in_set_conv_nth)
  have l: "length out = length articles" by (rule get_real_urls_batch_Inr(1) [OF assms(1)])
  have eq: "out ! i = (articles ! i) \<lparr> real_url := real_url (out ! i),
      success := success (out ! i) \<rparr>"
    using get_real_urls_batch_Inr(2) [OF assms(1)] i l by simp
  have "content_fetched (out ! i) = content_fetched ((articles ! i) \<lparr> real_url :=
      real_url (out ! i), success := success (out ! i) \<rparr>)"
    by (rule arg_cong [OF eq])
  then have "content_fetched (out ! i) = content_fetched (articles ! i)" by simp
  then show "\<not> content_fetched a" using assms(2) i l by simp
qed

lemma fetched_implies_resolved_batch:
  assumes "fetch_contents_batch w articles st = (Inr out, st')"
    and "\<forall>a\<in>set articles. content_fetched a \<longrightarrow> success a"
  shows "\<forall>a\<in>set out. content_fetched a \<longrightarrow> success a"
proof
  fix a assume "a \<in> set out"
  then obtain i where i: "i < length out" "a = out ! i" by (auto simp: in_set_conv_nth)
  from fetch_contents_batch_Inr [of w articles st] assms(1)
  have l: "length out = length articles"
    and e: "\<forall>i<length articles.
        if is_valid (articles ! i)
        then \<exists>s. fst (fetch_content w (articles ! i) s) = Inr (out ! i)
        else out ! i = articles ! i" by auto
  show "content_fetched a \<longrightarrow> success a"
  proof (cases "is_valid (articles ! i)")
    case True
    have "if is_valid (articles ! i)
        then \<exists>s. fst (fetch_content w (articles ! i) s) = Inr (out ! i)
        else out ! i = articles ! i" using e i l by simp
    then obtain s where "fst (fetch_content w (articles ! i) s) = Inr (out ! i)"
      using True by auto
    then have "success (out ! i) = success (articles ! i)" by (rule fetch_content_fields(4))
    then show ?thesis using True i by (simp add: is_valid_def)
  next
    case False
    have "if is_valid (articles ! i)
        then \<exists>s. fst (fetch_content w (articles ! i) s) = Inr (out ! i)
        else out ! i = articles ! i" using e i l by simp
    then have "out ! i = articles ! i" using False by simp
    then show ?thesis using assms(2) i l by simp
  qed
qed

lemma fetched_implies_resolved_stage:
  assumes "resolve_and_fetch w g f articles st = (Inr r, st')"
    and "\<forall>a\<in>set articles. \<not> content_fetched a"
  shows "\<forall>a\<in>set (cr_data r). content_fetched a \<longrightarrow> success a"
proof -
  obtain r1 s1 where a: "(if g then get_real_urls_batch w articles st else (Inr articles, st)) =
      (r1, s1)" by (cases "if g then get_real_urls_batch w articles st else (Inr articles, st)")
  obtain as1 where r1: "r1 = Inr as1"
    using assms(1) a by (cases r1) (simp_all add: resolve_and_fetch_def)
  have u1: "\<forall>a\<in>set as1. \<not> content_fetched a"
    using a r1 assms(2) unfetched_get_real_urls_batch [of w articles st as1 s1]
    by (auto split: if_splits)
  obtain r2 s2 where b: "(if f \<and> g then fetch_contents_batch w as1 s1 else (Inr as1, s1)) =
      (r2, s2)" by (cases "if f \<and> g then fetch_contents_batch w as1 s1 else (Inr as1, s1)")
  obtain as2 where r2: "r2 = Inr as2"
    using assms(1) a r1 b by (cases r2) (simp_all add: resolve_and_fetch_def)
  have u2: "\<forall>a\<in>set as2. content_fetched a \<longrightarrow> success a"
    using b r2 u1 fetched_implies_resolved_batch [of w as1 s1 as2 s2]
    by (auto split: if_splits)
  have "cr_data r = as2"
    using assms(1) a r1 b r2 by (auto simp: resolve_and_fetch_def Let_def)
  then show ?thesis using u2 by simp
qed

lemma recover_session_failure:
  assumes "recover_session w query page st = (Inr (Inl r), st')"
  shows "cr_data r = []"
  using assms
  by (auto simp: recover_session_def failure_def
      split: prod.splits sum.splits bool.splits if_splits)

lemma fetched_implies_resolved_crawl:
  assumes "crawl_and_extract w query page g f st = (Inr r, st')"
  shows "\<forall>a\<in>set (cr_data r). content_fetched a \<longrightarrow> success a"
proof -
  have t: "\<forall>a\<in>set (cr_data r'). content_fetched a \<longrightarrow> success a"
    if "crawl_try_block w query page g f st = (Inr r', s')" for r' s'
    using that unfetched_search_articles unfetched_recover_session
      fetched_implies_resolved_stage recover_session_failure
    by (auto simp: crawl_try_block_def failure_def
        split: prod.splits sum.splits bool.splits if_splits)
  show ?thesis
    using assms t
    by (auto simp: crawl_and_extract_def failure_def
        split: prod.splits sum.splits abort.splits)
qed


lemmas crawl_eval = crawl_and_extract_def crawl_try_block_def search_articles_def
  search_try_block_def resolve_and_fetch_def recover_session_def clear_session_def
  home_url_def failure_def

lemma ascii_lib_fields:
  "select_news_items (ascii_lib items) html = items"
  "md5_hexdigest (ascii_lib items) = digest_stub"
  "parse_article_page (ascii_lib items) html =
     Inr \<lparr> ap_selected = [], ap_body = Some \<lparr> el_strings = [html], el_href = None \<rparr> \<rparr>"
  by (simp_all add: ascii_lib_def)

lemma more_example_urls:
  "home_url \<noteq> ustr ''bad''" "ustr ''T'' \<noteq> []" "py_strip (ustr ''T'') = ustr ''T''"
  by (simp_all add: home_url_def ustr_def py_strip_def py_isspace_def)

lemma serving_parse:
  "parse_search_results (ascii_lib [linked_item (ustr ''good'')]) clock html =
     Inr [(listed (ustr ''good'')) \<lparr> crawl_time := strftime_full (clock 0) \<rparr>]"
  by (simp add: parse_search_results_def parse_item_def extract_title_def
      extract_sogou_url_def extract_source_def extract_publish_time_def get_text_strip_def
      plain_item_def text_element_def WeChatArticle_def Let_def ascii_lib_fields
      linked_item_def listed_def example_urls more_example_urls)
    (simp add: ustr_def)

lemma serving_crawl:
  "map (\<lambda>a. (title a, real_url a, success a, content_fetched a))
     (cr_data (projr (fst (crawl_and_extract serving_world (ustr ''robots'') 67 True True
        (new_crawler \<lparr> is_logged_in := True \<rparr>))))) =
     [(ustr ''T'', ustr ''https://a/s?x'', True, True)]"
  by (simp add: crawl_and_extract_def crawl_try_block_def search_articles_def
      search_try_block_def resolve_and_fetch_def serving_world_def batch_eval example_urls
      more_example_urls resolve_good_page serving_parse ascii_lib_fields case_prod_unfold)


lemma hands_pages_loop:
  "hands_fetched_only st (snd (pages_loop w account page g f ps all_results st))"
proof (induction ps arbitrary: all_results st)
  case Nil
  show ?case by (simp add: hands_same)
next
  case (Cons p ps)
  obtain r s1 where c: "crawl_and_extract w account p g f st = (r, s1)"
    by (cases "crawl_and_extract w account p g f st")
  have h1: "hands_fetched_only st s1" using hands_crawl_and_extract [of st w account p g f] c by simp
  have k: "hands_fetched_only st (snd (pages_loop w account page g f ps all' s1))" for all'
    using hands_trans [OF h1 Cons.IH] .
  have "hands_fetched_only s1 (sleep (Between 3 5) s1)" by (simp add: hands_same sleep_def)
  then have h2: "hands_fetched_only st (sleep (Between 3 5) s1)" using hands_trans [OF h1] by blast
  have k': "hands_fetched_only st
      (snd (pages_loop w account page g f ps all' (sleep (Between 3 5) s1)))" for all'
    using hands_trans [OF h2 Cons.IH] .
  show ?case
    using c h1 k k' by (auto split: sum.splits abort.splits)
qed

lemma hands_crawl_all:
  "hands_fetched_only st (snd (crawl_all_configured_accounts w g f page st))"
proof -
  obtain r1 s1 where l: "(if \<not> is_logged_in st then login w False st else (Inr True, st)) =
      (r1, s1)" by (cases "if \<not> is_logged_in st then login w False st else (Inr True, st)")
  have h1: "handed s1 = handed st" using l handed_login [of w False st] by (auto split: if_splits)
  obtain accounts s2 where a: "load_wechat_accounts w s1 = (accounts, s2)"
    by (cases "load_wechat_accounts w s1")
  have h2: "handed s2 = handed st" using handed_load_wechat_accounts [of w s1] a h1 by simp
  have k: "hands_fetched_only st (snd (accounts_loop w accs g f page later all' s2))"
    for accs later all'
  proof (cases later)
    case Nil
    then show ?thesis using h2 by (simp add: hands_same)
  next
    case (Cons account rest)
    define pg where "pg = (case page of None \<Rightarrow> 3000 | Some n \<Rightarrow> n)"
    obtain r s3 where p: "pages_loop w account pg g f [67..pg - 1] all' s2 = (r, s3)"
      by (cases "pages_loop w account pg g f [67..pg - 1] all' s2")
    have "hands_fetched_only st (snd (pages_loop w account pg g f [67..pg - 1] all' s2))"
      using hands_trans [OF hands_same [OF h2] hands_pages_loop] .
    then have "hands_fetched_only st s3" using p by simp
    then show ?thesis
      using Cons p by (cases r) (simp_all add: Let_def pg_def [symmetric])
  qed
  show ?thesis
    using l a h1 h2 k
    by (auto simp: crawl_all_configured_accounts_def hands_same
        split: sum.splits bool.splits)
qed

text \<open>
  Claim C4. Whatever \<open>crawl_and_extract\<close> and \<open>crawl_all_configured_accounts\<close> hand to
  \<open>save_article_to_storage\<close> is a record with \<open>content_fetched\<close>, \<open>success\<close> and a real
  URL: a record that never resolved is never handed over. In every result of
  \<open>crawl_and_extract\<close>, and after each stage of the pipeline, a record with
  \<open>content_fetched\<close> has \<open>success\<close>: the records of a search are not fetched, the
  resolve batch leaves them unfetched and hands nothing over, and the fetch batch keeps the
  property and hands only fetched records over.
\<close>

theorem only_fetched_records_persisted:
  "hands_fetched_only st (snd (crawl_and_extract w query page g f st))
   \<and> hands_fetched_only st (snd (crawl_all_configured_accounts w g f pages st))
   \<and> (fst (crawl_and_extract w query page g f st) = Inr r \<longrightarrow>
        (\<forall>a\<in>set (cr_data r). content_fetched a \<longrightarrow> success a))
   \<and> (fst (search_articles w query page st) = Inr articles \<longrightarrow>
        (\<forall>a\<in>set articles. \<not> content_fetched a))
   \<and> (fst (get_real_urls_batch w articles st) = Inr out \<and>
        (\<forall>a\<in>set articles. \<not> content_fetched a) \<longrightarrow>
        (\<forall>a\<in>set out. \<not> content_fetched a) \<and>
        handed (snd (get_real_urls_batch w articles st)) = handed st)
   \<and> (fst (fetch_contents_batch w articles st) = Inr out \<and>
        (\<forall>a\<in>set articles. content_fetched a \<longrightarrow> success a) \<longrightarrow>
        (\<forall>a\<in>set out. content_fetched a \<longrightarrow> success a) \<and>
        hands_fetched_only st (snd (fetch_contents_batch w articles st)))"
proof (intro conjI impI)
  show "hands_fetched_only st (snd (crawl_and_extract w query page g f st))"
    by (rule hands_crawl_and_extract)
  show "hands_fetched_only st (snd (crawl_all_configured_accounts w g f pages st))"
    by (rule hands_crawl_all)
next
  assume "fst (crawl_and_extract w query page g f st) = Inr r"
  then have "crawl_and_extract w query page g f st =
      (Inr r, snd (crawl_and_extract w query page g f st))" by (metis prod.collapse)
  then show "\<forall>a\<in>set (cr_data r). content_fetched a \<longrightarrow> success a"
    by (rule fetched_implies_resolved_crawl)
next
  assume "fst (search_articles w query page st) = Inr articles"
  then have "search_articles w query page st =
      (Inr articles, snd (search_articles w query page st))" by (metis prod.collapse)
  then show "\<forall>a\<in>set articles. \<not> content_fetched a" by (rule unfetched_search_articles)
next
  assume h: "fst (get_real_urls_batch w articles st) = Inr out \<and>
        (\<forall>a\<in>set articles. \<not> content_fetched a)"
  then have "get_real_urls_batch w articles st =
      (Inr out, snd (get_real_urls_batch w articles st))" by (metis prod.collapse)
  then show "\<forall>a\<in>set out. \<not> content_fetched a"
    using h unfetched_get_real_urls_batch by blast
  show "handed (snd (get_real_urls_batch w articles st)) = handed st"
    by (rule hands_get_real_urls_batch)
next
  assume h: "fst (fetch_contents_batch w articles st) = Inr out \<and>
        (\<forall>a\<in>set articles. content_fetched a \<longrightarrow> success a)"
  then have "fetch_contents_batch w articles st =
      (Inr out, snd (fetch_contents_batch w articles st))" by (metis prod.collapse)
  then show "\<forall>a\<in>set out. content_fetched a \<longrightarrow> success a"
    using h fetched_implies_resolved_batch by blast
  show "hands_fetched_only st (snd (fetch_contents_batch w articles st))"
    by (rule hands_fetch_contents_batch)
qed

lemma serving_crawl_handed:
  "map (\<lambda>a. (title a, real_url a, success a, content_fetched a))
     (handed (snd (crawl_and_extract serving_world (ustr ''robots'') 67 True True
        (new_crawler \<lparr> is_logged_in := True \<rparr>)))) =
     [(ustr ''T'', ustr ''https://a/s?x'', True, True)]"
    "\<not> isl (fst (crawl_and_extract serving_world (ustr ''robots'') 67 True True
        (new_crawler \<lparr> is_logged_in := True \<rparr>)))"
  by (simp_all add: crawl_and_extract_def crawl_try_block_def search_articles_def
      search_try_block_def resolve_and_fetch_def serving_world_def batch_eval example_urls
      more_example_urls resolve_good_page serving_parse ascii_lib_fields case_prod_unfold)

text \<open>
  The theorem at one page of the serving environment: the record of the page is resolved,
  fetched and handed to the store, and it is the only one.
\<close>

theorem only_fetched_records_persisted_witness:
  "list_all persistable
     (handed_since (new_crawler \<lparr> is_logged_in := True \<rparr>)
        (snd (crawl_and_extract serving_world (ustr ''robots'') 67 True True
           (new_crawler \<lparr> is_logged_in := True \<rparr>))))
   \<and> map title (handed (snd (crawl_and_extract serving_world (ustr ''robots'') 67 True True
        (new_crawler \<lparr> is_logged_in := True \<rparr>)))) = [ustr ''T'']
   \<and> list_all success (filter content_fetched
        (cr_data (projr (fst (crawl_and_extract serving_world (ustr ''robots'') 67 True True
           (new_crawler \<lparr> is_logged_in := True \<rparr>))))))
   \<and> list_all (\<lambda>a. \<not> content_fetched a)
        (projr (fst (get_real_urls_batch broken_world [listed (ustr ''good'')] new_crawler)))
   \<and> list_all success (filter content_fetched
        (projr (fst (fetch_contents_batch broken_world
           [resolved (ustr ''bad''), resolved (ustr ''good'')] new_crawler))))"
proof -
  let ?s = "new_crawler \<lparr> is_logged_in := True \<rparr>"
  let ?c = "crawl_and_extract serving_world (ustr ''robots'') 67 True True ?s"
  let ?g = "get_real_urls_batch broken_world [listed (ustr ''good'')] new_crawler"
  let ?f = "fetch_contents_batch broken_world
      [resolved (ustr ''bad''), resolved (ustr ''good'')] new_crawler"
  note t = only_fetched_records_persisted
  have c1: "hands_fetched_only ?s (snd ?c)"
    using t [where st = ?s and w = serving_world and query = "ustr ''robots''" and page = 67
        and g = True and f = True] by blast
  have "map fst (map (\<lambda>a. (title a, real_url a, success a, content_fetched a))
      (handed (snd ?c))) = map fst [(ustr ''T'', ustr ''https://a/s?x'', True, True)]"
    by (simp only: serving_crawl_handed(1))
  then have c2: "map title (handed (snd ?c)) = [ustr ''T'']" by (simp add: comp_def)
  have h3: "fst ?c = Inr (projr (fst ?c))" using serving_crawl_handed(2) by (cases "fst ?c") auto
  have c3: "\<forall>a\<in>set (cr_data (projr (fst ?c))). content_fetched a \<longrightarrow> success a"
    using t [where st = ?s and w = serving_world and query = "ustr ''robots''" and page = 67
        and g = True and f = True and r = "projr (fst ?c)"] h3 by blast
  have "\<not> isl (fst ?g)" by (simp add: batch_eval example_urls resolve_good_page)
  then have h4: "fst ?g = Inr (projr (fst ?g)) \<and>
      (\<forall>a\<in>set [listed (ustr ''good'')]. \<not> content_fetched a)"
    by (cases "fst ?g") (auto simp: listed_def WeChatArticle_def)
  have c4: "\<forall>a\<in>set (projr (fst ?g)). \<not> content_fetched a"
    using t [where st = new_crawler and w = broken_world
        and articles = "[listed (ustr ''good'')]" and out = "projr (fst ?g)"] h4 by blast
  have "\<not> isl (fst ?f)"
    by (simp add: batch_eval example_urls ascii_lib_def case_prod_unfold)
  then have h5: "fst ?f = Inr (projr (fst ?f)) \<and>
      (\<forall>a\<in>set [resolved (ustr ''bad''), resolved (ustr ''good'')].
         content_fetched a \<longrightarrow> success a)"
    by (cases "fst ?f") (auto simp: resolved_def WeChatArticle_def)
  have c5: "\<forall>a\<in>set (projr (fst ?f)). content_fetched a \<longrightarrow> success a"
    using t [where st = new_crawler and w = broken_world
        and articles = "[resolved (ustr ''bad''), resolved (ustr ''good'')]"
        and out = "projr (fst ?f)"] h5 by blast
  show ?thesis
    using c1 c2 c3 c4 c5 by (auto simp: hands_fetched_only_def list_all_iff)
qed

section \<open>Results and exits of the pipeline (claim C1)\<close>

lemma crawl_and_extract_no_raise:
  "fst (crawl_and_extract w query page g f st) \<noteq> Inl (Raise x)"
  by (auto simp: crawl_and_extract_def split: prod.splits sum.splits abort.splits)

lemma resolve_and_fetch_no_exit:
  "fst (resolve_and_fetch w g f articles st) \<noteq> Inl (SystemExit c)"
  by (auto simp: resolve_and_fetch_def Let_def split: prod.splits sum.splits if_splits)

lemma recover_session_exit:
  "recover_session w query page st = (Inl (SystemExit c), st') \<longleftrightarrow>
     c = 0 \<and> (\<exists>s2 s3. clear_session w (sleep (Fixed 60) st) = (Inr (), s2) \<and>
        login w True s2 = (Inr True, s3) \<and>
        search_articles w query page s3 = (Inr [], st'))"
  by (auto simp: recover_session_def split: prod.splits sum.splits bool.splits if_splits)

lemma crawl_try_block_exit:
  "crawl_try_block w query page g f st = (Inl (SystemExit c), st') \<longleftrightarrow>
     (\<exists>s0 s1. (if \<not> is_logged_in st then login w False st else (Inr True, st)) = (Inr True, s0) \<and>
        search_articles w query page s0 = (Inr [], s1) \<and>
        recover_session w query page s1 = (Inl (SystemExit c), st'))"
proof -
  have n: "resolve_and_fetch w g f as s \<noteq> (Inl (SystemExit c), st')" for as s
    using resolve_and_fetch_no_exit [of w g f as s c] by (metis fst_conv)
  show ?thesis
    using n
    by (auto simp: crawl_try_block_def split: prod.splits sum.splits bool.splits if_splits)
qed

lemma crawl_and_extract_exit:
  "crawl_and_extract w query page g f st = (Inl (SystemExit c), st') \<longleftrightarrow>
     c = 0 \<and>
     (\<exists>s0 s1 s2 s3.
        (if \<not> is_logged_in st then login w False st else (Inr True, st)) = (Inr True, s0) \<and>
        search_articles w query page s0 = (Inr [], s1) \<and>
        clear_session w (sleep (Fixed 60) s1) = (Inr (), s2) \<and>
        login w True s2 = (Inr True, s3) \<and>
        search_articles w query page s3 = (Inr [], st'))"
proof -
  have "crawl_and_extract w query page g f st = (Inl (SystemExit c), st') \<longleftrightarrow>
      crawl_try_block w query page g f st = (Inl (SystemExit c), st')"
    by (auto simp: crawl_and_extract_def split: prod.splits sum.splits abort.splits)
  then show ?thesis
    unfolding crawl_try_block_exit recover_session_exit by blast
qed

lemma pages_loop_outcome:
  "(\<forall>x. fst (pages_loop w account page g f ps all_results st) \<noteq> Inl (Raise x)) \<and>
   (\<forall>c. fst (pages_loop w account page g f ps all_results st) = Inl (SystemExit c) \<longrightarrow> c = 0)"
proof (induction ps arbitrary: all_results st)
  case Nil
  show ?case by simp
next
  case (Cons p ps)
  obtain r s1 where c: "crawl_and_extract w account p g f st = (r, s1)"
    by (cases "crawl_and_extract w account p g f st")
  show ?case
  proof (cases r)
    case (Inl ab)
    show ?thesis
    proof (cases ab)
      case (Raise x)
      then show ?thesis using c Inl crawl_and_extract_no_raise [of w account p g f st x] by simp
    next
      case (SystemExit code)
      then have "code = 0" using c Inl crawl_and_extract_exit [of w account p g f st code s1] by simp
      then show ?thesis using c Inl SystemExit by simp
    qed
  next
    case (Inr result)
    then show ?thesis using c Cons.IH by simp
  qed
qed

lemma pages_loop_exit:
  assumes "crawl_and_extract w account p g f st = (Inl (SystemExit c), st')"
  shows "pages_loop w account page g f (p # ps) all_results st = (Inl (SystemExit c), st')"
  using assms by simp

lemma accounts_loop_outcome:
  assumes "later \<noteq> []"
  shows "(\<forall>x. fst (accounts_loop w accounts g f page later all_results st) \<noteq> Inl (Raise x)) \<and>
   (\<forall>c. fst (accounts_loop w accounts g f page later all_results st) = Inl (SystemExit c)
      \<longrightarrow> c = 0) \<and>
   fst (accounts_loop w accounts g f page later all_results st) \<noteq> Inr None"
proof -
  obtain account rest where l: "later = account # rest" using assms by (cases later) auto
  define pg where "pg = (case page of None \<Rightarrow> 3000 | Some n \<Rightarrow> n)"
  obtain r s1 where p: "pages_loop w account pg g f [67..pg - 1] all_results st = (r, s1)"
    by (cases "pages_loop w account pg g f [67..pg - 1] all_results st")
  have a: "fst (accounts_loop w accounts g f page later all_results st) =
      (case r of Inl ab \<Rightarrow> Inl ab
       | Inr all' \<Rightarrow> Inr (Some \<lparr> ar_success = list_ex pe_success all',
           ar_message = AccountsDone (length accounts), ar_data = all' \<rparr>))"
    using l p by (simp add: Let_def pg_def [symmetric] split: sum.splits)
  show ?thesis
    unfolding a
    using pages_loop_outcome [of w account pg g f "[67..pg - 1]" all_results st] p
    by (cases r) auto
qed

lemma login_raises_only_at_start:
  assumes "fst (login w force_login st) = Inl x"
  shows "fst (init_playwright w st) = Inl x"
  using assms
  by (auto simp: login_def playwright_login_def split: if_splits prod.splits sum.splits)

lemma crawl_all_outcome:
  "fst (crawl_all_configured_accounts w g f page st) \<noteq> Inr None"
  "fst (crawl_all_configured_accounts w g f page st) = Inl (SystemExit c) \<Longrightarrow> c = 0"
  "fst (crawl_all_configured_accounts w g f page st) = Inl (Raise x) \<Longrightarrow>
     \<not> is_logged_in st \<and> fst (init_playwright w st) = Inl x"
proof -
  obtain r1 s1 where l: "(if \<not> is_logged_in st then login w False st else (Inr True, st)) =
      (r1, s1)" by (cases "if \<not> is_logged_in st then login w False st else (Inr True, st)")
  obtain accounts s2 where a: "load_wechat_accounts w s1 = (accounts, s2)"
    by (cases "load_wechat_accounts w s1")
  let ?loop = "accounts_loop w accounts g f page accounts [] s2"
  have f: "fst (crawl_all_configured_accounts w g f page st) =
      (case r1 of Inl e \<Rightarrow> Inl (Raise e)
       | Inr False \<Rightarrow> Inr (Some \<lparr> ar_success = False, ar_message = LoginFailed, ar_data = [] \<rparr>)
       | Inr True \<Rightarrow>
           if accounts = []
           then Inr (Some \<lparr> ar_success = False, ar_message = NoAccounts, ar_data = [] \<rparr>)
           else fst ?loop)"
    using l a by (simp add: crawl_all_configured_accounts_def split: sum.splits bool.splits)
  have lo: "accounts \<noteq> [] \<Longrightarrow>
      (\<forall>x. fst ?loop \<noteq> Inl (Raise x)) \<and> (\<forall>c. fst ?loop = Inl (SystemExit c) \<longrightarrow> c = 0) \<and>
      fst ?loop \<noteq> Inr None"
    by (rule accounts_loop_outcome)
  show "fst (crawl_all_configured_accounts w g f page st) \<noteq> Inr None"
    unfolding f using lo by (auto split: sum.splits bool.splits)
  show "c = 0" if "fst (crawl_all_configured_accounts w g f page st) = Inl (SystemExit c)"
    using that lo unfolding f by (auto split: sum.splits bool.splits if_splits)
  show "\<not> is_logged_in st \<and> fst (init_playwright w st) = Inl x"
    if "fst (crawl_all_configured_accounts w g f page st) = Inl (Raise x)"
  proof -
    have "r1 = Inl x"
      using that lo unfolding f by (auto split: sum.splits bool.splits if_splits)
    then have "\<not> is_logged_in st" and "fst (login w False st) = Inl x"
      using l by (auto split: if_splits)
    then show ?thesis using login_raises_only_at_start by blast
  qed
qed


text \<open>
  Claim C1, as the code has it. \<open>crawl_and_extract\<close> never raises an exception: it
  returns a result with \<open>success\<close> and \<open>message\<close>, or it ends with \<open>SystemExit\<close>. It
  ends with \<open>SystemExit\<close>, and then with code 0, exactly when the crawler is or gets
  logged in, the search finds nothing, the session is cleared, the forced login succeeds
  and the second search finds nothing again. \<open>crawl_all_configured_accounts\<close> never
  returns \<open>None\<close>; a \<open>SystemExit\<close> that leaves it has code 0, and the \<open>SystemExit\<close> of
  a page leaves it (shown for the first page); an exception leaves it only when the
  crawler is not logged in and the browser cannot be started.
\<close>

theorem pipeline_outcomes:
  "fst (crawl_and_extract w query page g f st) \<noteq> Inl (Raise x)
   \<and> (crawl_and_extract w query page g f st = (Inl (SystemExit c), st') \<longleftrightarrow>
        c = 0 \<and>
        (\<exists>s0 s1 s2 s3.
           (if \<not> is_logged_in st then login w False st else (Inr True, st)) = (Inr True, s0) \<and>
           search_articles w query page s0 = (Inr [], s1) \<and>
           clear_session w (sleep (Fixed 60) s1) = (Inr (), s2) \<and>
           login w True s2 = (Inr True, s3) \<and>
           search_articles w query page s3 = (Inr [], st')))
   \<and> fst (crawl_all_configured_accounts w g f pages st) \<noteq> Inr None
   \<and> (fst (crawl_all_configured_accounts w g f pages st) = Inl (SystemExit c) \<longrightarrow> c = 0)
   \<and> (fst (crawl_all_configured_accounts w g f pages st) = Inl (Raise x) \<longrightarrow>
        \<not> is_logged_in st \<and> fst (init_playwright w st) = Inl x)
   \<and> (is_logged_in st \<and> load_wechat_accounts w st = (account # later, s1) \<and>
        67 < (case pages of None \<Rightarrow> 3000 | Some n \<Rightarrow> n) \<and>
        crawl_and_extract w account 67 g f s1 = (Inl (SystemExit c), s2) \<longrightarrow>
        crawl_all_configured_accounts w g f pages st = (Inl (SystemExit c), s2))"
proof (intro conjI impI)
  show "fst (crawl_and_extract w query page g f st) \<noteq> Inl (Raise x)"
    by (rule crawl_and_extract_no_raise)
  show "crawl_and_extract w query page g f st = (Inl (SystemExit c), st') \<longleftrightarrow>
        c = 0 \<and>
        (\<exists>s0 s1 s2 s3.
           (if \<not> is_logged_in st then login w False st else (Inr True, st)) = (Inr True, s0) \<and>
           search_articles w query page s0 = (Inr [], s1) \<and>
           clear_session w (sleep (Fixed 60) s1) = (Inr (), s2) \<and>
           login w True s2 = (Inr True, s3) \<and>
           search_articles w query page s3 = (Inr [], st'))"
    by (rule crawl_and_extract_exit)
  show "fst (crawl_all_configured_accounts w g f pages st) \<noteq> Inr None"
    by (rule crawl_all_outcome(1))
next
  assume "fst (crawl_all_configured_accounts w g f pages st) = Inl (SystemExit c)"
  then show "c = 0" by (rule crawl_all_outcome(2))
next
  assume a: "fst (crawl_all_configured_accounts w g f pages st) = Inl (Raise x)"
  show "\<not> is_logged_in st" using crawl_all_outcome(3) [OF a] by blast
  show "fst (init_playwright w st) = Inl x" using crawl_all_outcome(3) [OF a] by blast
next
  assume a: "is_logged_in st \<and> load_wechat_accounts w st = (account # later, s1) \<and>
        67 < (case pages of None \<Rightarrow> 3000 | Some n \<Rightarrow> n) \<and>
        crawl_and_extract w account 67 g f s1 = (Inl (SystemExit c), s2)"
  define pg where "pg = (case pages of None \<Rightarrow> 3000 | Some n \<Rightarrow> n)"
  have "67 \<le> pg - 1" using a by (simp add: pg_def)
  then have u: "[67..pg - 1] = 67 # [67 + 1..pg - 1]" by (rule upto_rec1)
  have "pages_loop w account pg g f [67..pg - 1] [] s1 = (Inl (SystemExit c), s2)"
    unfolding u using a by (intro pages_loop_exit) simp
  then show "crawl_all_configured_accounts w g f pages st = (Inl (SystemExit c), s2)"
    using a by (simp add: crawl_all_configured_accounts_def Let_def pg_def [symmetric]
        del: upto_rec_numeral)
qed

lemma first_round_Cons: "[0..<60] = 0 # [Suc 0..<60]"
  by (rule upt_conv_Cons) simp

lemma default_pages_Cons: "[67..3000 - 1] = 67 # [67 + 1..3000 - 1]"
  by (rule upto_rec1) simp

lemmas login_eval = login_def playwright_login_def login_try_block_def init_playwright_def
  finish_login_def save_login_cookies_def first_round_Cons jar_update_def

lemma dead_session_exit:
  assumes "is_logged_in st" and "cookie_file st = None"
  shows "fst (crawl_and_extract dead_session_world query page g f st) = Inl (SystemExit 0)"
  using assms
  by (simp add: crawl_and_extract_def crawl_try_block_def recover_session_def
      clear_session_def search_articles_def search_try_block_def login_eval
      raise_for_status_def parse_search_results_def ascii_lib_fields dead_session_world_def
      quiet_world_def tick_def sleep_def Let_def)

lemma dead_session_exit_all:
  "fst (crawl_all_configured_accounts dead_session_world g f None
          (new_crawler \<lparr> is_logged_in := True \<rparr>)) = Inl (SystemExit 0)"
proof -
  let ?st = "new_crawler \<lparr> is_logged_in := True \<rparr>"
  have l: "load_wechat_accounts dead_session_world ?st = ([ustr ''robots''], tick ?st)"
    by (simp add: load_wechat_accounts_def dead_session_world_def quiet_world_def)
      (simp add: ustr_def py_strip_def py_isspace_def)
  have "is_logged_in (tick ?st)" and "cookie_file (tick ?st) = None"
    by (simp_all add: tick_def new_crawler_def)
  then have e: "fst (crawl_and_extract dead_session_world (ustr ''robots'') 67 g f (tick ?st)) =
      Inl (SystemExit 0)" by (rule dead_session_exit)
  obtain s2 where c: "crawl_and_extract dead_session_world (ustr ''robots'') 67 g f (tick ?st) =
      (Inl (SystemExit 0), s2)" using e by (metis prod.collapse)
  have "pages_loop dead_session_world (ustr ''robots'') 3000 g f (67 # [67 + 1..3000 - 1]) []
      (tick ?st) = (Inl (SystemExit 0), s2)" using c by (rule pages_loop_exit)
  then have p: "pages_loop dead_session_world (ustr ''robots'') 3000 g f [67..3000 - 1] []
      (tick ?st) = (Inl (SystemExit 0), s2)" by (simp only: default_pages_Cons)
  have "accounts_loop dead_session_world [ustr ''robots''] g f None [ustr ''robots''] []
      (tick ?st) = (Inl (SystemExit 0), s2)"
    by (simp only: accounts_loop.simps Let_def option.case p prod.case sum.case)
  then show ?thesis
    by (simp add: crawl_all_configured_accounts_def l)
qed

end
